theory Spec2Isabelle
  imports Complex_Main
begin

section \<open>Binary Gravitational Search Algorithm for feature selection\<close>

text \<open>
  A shallow embedding of \<^verbatim>\<open>GSA2.2.PY\<close>: the fitness evaluator
  \<^verbatim>\<open>evaluate_solution\<close> and the optimisation loop
  \<^verbatim>\<open>GSA_feature_selection\<close>.

  Conventions of the embedding.
  \<^item> NumPy's float64 values are idealised as \<^typ>\<open>real\<close>; the literal
    \<^verbatim>\<open>1e-20\<close> is \<open>1 / 10 ^ 20\<close> and \<^verbatim>\<open>0.01\<close> is \<open>1 / 100\<close>. Rounding,
    overflow and NaN are outside this idealisation.
  \<^item> Integer arrays are \<^typ>\<open>int list\<close>, matrices are lists of rows.
  \<^item> The k-NN classifier with its data set is an external collaborator: it is the
    parameter \<open>knn\<close>, which receives the selected column indices and returns an
    accuracy, or \<open>None\<close> when it raises.
  \<^item> The global NumPy generator is an explicit value of type \<open>rng\<close> that is
    threaded through every drawing operation.
  \<^item> Python exceptions are values of \<open>py_error\<close>; a function that may raise
    returns \<open>py_error + 'a\<close>.
\<close>

subsection \<open>Errors\<close>

datatype py_error =
    ValueError      \<comment> \<open>raised by NumPy: negative dimension, reduction of an empty array\<close>
  | ScorerError     \<comment> \<open>any exception of the external classifier\<close>
  | NonFinite       \<comment> \<open>not an exception: a NumPy division by zero produced inf or nan
                        (with a RuntimeWarning), which leaves the real-number idealisation\<close>

subsection \<open>The fitness evaluator\<close>

type_synonym scorer = "nat list \<Rightarrow> real option"

definition count_nonzero :: "int list \<Rightarrow> nat" where
  "count_nonzero v = length (filter (\<lambda>x. x \<noteq> 0) v)"

text \<open>\<^verbatim>\<open>np.where(binary_vector == 1)[0]\<close>: the indices holding exactly 1, ascending.\<close>

definition where_eq_1 :: "int list \<Rightarrow> nat list" where
  "where_eq_1 v = filter (\<lambda>i. v ! i = 1) [0..<length v]"

definition evaluate_solution :: "scorer \<Rightarrow> int list \<Rightarrow> py_error + real" where
  "evaluate_solution knn binary_vector =
     (if count_nonzero binary_vector = 0 then Inr 1
      else
        (case knn (where_eq_1 binary_vector) of
           None \<Rightarrow> Inl ScorerError
         | Some acc \<Rightarrow>
             (let penalty = real (count_nonzero binary_vector) / real (length binary_vector)
              in Inr (1 - (acc - (1 / 100) * penalty)))))"

subsection \<open>The random source\<close>

text \<open>
  \<^verbatim>\<open>np.random.rand\<close> returns values of the half-open interval \<open>[0, 1)\<close> and
  \<^verbatim>\<open>np.random.randint(0, 2, ...)\<close> returns 0 or 1; both contracts of the library are
  carried by the types of the draws.
\<close>

typedef unit_draw = "{x :: real. 0 \<le> x \<and> x < 1}"
  by (rule exI [of _ 0]) simp

text \<open>
  The generator state: the values \<^verbatim>\<open>np.random.rand\<close> will return, the bits
  \<^verbatim>\<open>np.random.randint(0, 2, ...)\<close> will return, and how many of each have been
  consumed. A matrix is filled in row-major order.
\<close>

record rng =
  rand_stream :: "nat \<Rightarrow> unit_draw"
  randint_stream :: "nat \<Rightarrow> bool"
  rand_used :: nat
  randint_used :: nat

text \<open>The value of the \<open>q\<close>-th draw of \<^verbatim>\<open>np.random.rand\<close>.\<close>

definition rand_value :: "rng \<Rightarrow> nat \<Rightarrow> real" where
  "rand_value g q = Rep_unit_draw (rand_stream g q)"

definition np_random_rand :: "rng \<Rightarrow> real \<times> rng" where
  "np_random_rand g = (rand_value g (rand_used g), g\<lparr>rand_used := rand_used g + 1\<rparr>)"

definition np_random_rand_nd :: "nat \<Rightarrow> nat \<Rightarrow> rng \<Rightarrow> real list list \<times> rng" where
  "np_random_rand_nd n d g =
     (map (\<lambda>i. map (\<lambda>k. rand_value g (rand_used g + i * d + k)) [0..<d]) [0..<n],
      g\<lparr>rand_used := rand_used g + n * d\<rparr>)"

definition np_random_randint_0_2 :: "nat \<Rightarrow> nat \<Rightarrow> rng \<Rightarrow> int list list \<times> rng" where
  "np_random_randint_0_2 n d g =
     (map (\<lambda>i. map (\<lambda>k. if randint_stream g (randint_used g + i * d + k) then 1 else 0) [0..<d])
        [0..<n],
      g\<lparr>randint_used := randint_used g + n * d\<rparr>)"

subsection \<open>Reductions and extended floats\<close>

definition np_min :: "real list \<Rightarrow> py_error + real" where
  "np_min xs = (if xs = [] then Inl ValueError else Inr (Min (set xs)))"

definition np_max :: "real list \<Rightarrow> py_error + real" where
  "np_max xs = (if xs = [] then Inl ValueError else Inr (Max (set xs)))"

text \<open>\<^verbatim>\<open>np.argmin\<close>: the first index holding the minimum.\<close>

definition np_argmin :: "real list \<Rightarrow> nat" where
  "np_argmin xs = length (takeWhile (\<lambda>x. x \<noteq> Min (set xs)) xs)"

text \<open>\<^verbatim>\<open>best_fitness\<close> starts as \<^verbatim>\<open>float('inf')\<close>, and the returned score is
  \<^verbatim>\<open>1.0 - best_fitness\<close>.\<close>

datatype pyfloat = Fin real | PosInf | NegInf

fun lt_pyfloat :: "real \<Rightarrow> pyfloat \<Rightarrow> bool" where
  "lt_pyfloat r (Fin x) = (r < x)"
| "lt_pyfloat r PosInf = True"
| "lt_pyfloat r NegInf = False"

fun le_pyfloat :: "pyfloat \<Rightarrow> pyfloat \<Rightarrow> bool" where
  "le_pyfloat NegInf y = True"
| "le_pyfloat (Fin x) (Fin y) = (x \<le> y)"
| "le_pyfloat (Fin x) PosInf = True"
| "le_pyfloat (Fin x) NegInf = False"
| "le_pyfloat PosInf PosInf = True"
| "le_pyfloat PosInf y = False"

fun one_minus :: "pyfloat \<Rightarrow> pyfloat" where
  "one_minus (Fin x) = Fin (1 - x)"
| "one_minus PosInf = NegInf"
| "one_minus NegInf = PosInf"

subsection \<open>Mass computation\<close>

definition eps :: real where
  "eps = 1 / 10 ^ 20"

definition raw_mass :: "real list \<Rightarrow> real \<Rightarrow> real \<Rightarrow> real list" where
  "raw_mass fitness best worst = map (\<lambda>f. (f - worst) / (best - worst + eps)) fitness"

definition normalized_mass :: "real list \<Rightarrow> real list" where
  "normalized_mass m = map (\<lambda>x. x / (sum_list m + eps)) m"

subsection \<open>Gravitational constant\<close>

definition gravity :: "nat \<Rightarrow> int \<Rightarrow> real" where
  "gravity t max_iter = 100 * exp (real_of_int (- 20 * int t) / real_of_int max_iter)"

subsection \<open>Forces and accelerations\<close>

definition vsub :: "int list \<Rightarrow> int list \<Rightarrow> int list" where
  "vsub u v = map2 (\<lambda>x y. x - y) u v"

definition linalg_norm :: "int list \<Rightarrow> real" where
  "linalg_norm v = sqrt (sum_list (map (\<lambda>x. (real_of_int x)\<^sup>2) v))"

definition pair_force :: "real \<Rightarrow> real list \<Rightarrow> int list list \<Rightarrow> nat \<Rightarrow> nat \<Rightarrow> real list" where
  "pair_force G M P i j =
     (let R = linalg_norm (vsub (P ! i) (P ! j))
      in map (\<lambda>x. G * (M ! i) * (M ! j) * real_of_int x / (R + eps)) (vsub (P ! j) (P ! i)))"

text \<open>The inner loop \<^verbatim>\<open>for j in range(num_agents)\<close>: it carries \<^verbatim>\<open>total_force\<close> and
  the generator, and draws one scalar for every \<open>j \<noteq> i\<close>.\<close>

fun force_loop ::
  "real \<Rightarrow> real list \<Rightarrow> int list list \<Rightarrow> nat \<Rightarrow> nat list \<Rightarrow> real list \<times> rng \<Rightarrow> real list \<times> rng"
where
  "force_loop G M P i [] (total_force, g) = (total_force, g)"
| "force_loop G M P i (j # js) (total_force, g) =
     (if i \<noteq> j then
        (let force = pair_force G M P i j;
             (r, g') = np_random_rand g
         in force_loop G M P i js (map2 (\<lambda>tf f. tf + r * f) total_force force, g'))
      else force_loop G M P i js (total_force, g))"

text \<open>The outer loop \<^verbatim>\<open>for i in range(num_agents)\<close>, producing the rows of \<^verbatim>\<open>a\<close>.\<close>

fun accel_loop ::
  "real \<Rightarrow> real list \<Rightarrow> int list list \<Rightarrow> nat \<Rightarrow> nat \<Rightarrow> nat list \<Rightarrow> rng \<Rightarrow> real list list \<times> rng"
where
  "accel_loop G M P n d [] g = ([], g)"
| "accel_loop G M P n d (i # rest) g =
     (let (total_force, g1) = force_loop G M P i [0..<n] (replicate d 0, g);
          a_i = map (\<lambda>f. f / (M ! i + eps)) total_force;
          (a_rest, g2) = accel_loop G M P n d rest g1
      in (a_i # a_rest, g2))"

definition acceleration ::
  "real \<Rightarrow> real list \<Rightarrow> int list list \<Rightarrow> nat \<Rightarrow> nat \<Rightarrow> rng \<Rightarrow> real list list \<times> rng"
where
  "acceleration G M P n d g = accel_loop G M P n d [0..<n] g"

subsection \<open>Velocity and position update\<close>

definition update_velocity ::
  "nat \<Rightarrow> nat \<Rightarrow> real list list \<Rightarrow> real list list \<Rightarrow> rng \<Rightarrow> real list list \<times> rng"
where
  "update_velocity n d vel a g =
     (let (r, g') = np_random_rand_nd n d g
      in (map (\<lambda>i. map (\<lambda>k. r ! i ! k * vel ! i ! k + a ! i ! k) [0..<d]) [0..<n], g'))"

definition sigmoid :: "real \<Rightarrow> real" where
  "sigmoid v = 1 / (1 + exp (- v))"

definition update_position :: "nat \<Rightarrow> nat \<Rightarrow> real list list \<Rightarrow> rng \<Rightarrow> int list list \<times> rng" where
  "update_position n d S g =
     (let (u, g') = np_random_rand_nd n d g
      in (map (\<lambda>i. map (\<lambda>k. if S ! i ! k > u ! i ! k then 1 else 0) [0..<d]) [0..<n], g'))"

text \<open>\<^verbatim>\<open>np.sum(X, axis=0)\<close> for a matrix with \<open>d\<close> columns.\<close>

definition column_sums :: "nat \<Rightarrow> int list list \<Rightarrow> int list" where
  "column_sums d P = map (\<lambda>k. sum_list (map (\<lambda>row. row ! k) P)) [0..<d]"

subsection \<open>The optimisation loop\<close>

record gsa_state =
  X :: "int list list"
  V :: "real list list"
  best_fitness :: pyfloat
  best_position :: "int list option"
  history_fitness :: "pyfloat list"
  history_num_features :: "nat list"
  feature_selection_counter :: "real list"
  all_positions :: "int list list list"
  gen :: rng

text \<open>\<^verbatim>\<open>fitness = np.array([evaluate_solution(agent) for agent in X])\<close>: the first
  exception of the evaluator ends the comprehension.\<close>

fun population_fitness :: "scorer \<Rightarrow> int list list \<Rightarrow> py_error + real list" where
  "population_fitness knn [] = Inr []"
| "population_fitness knn (agent # rest) =
     (case evaluate_solution knn agent of
        Inl e \<Rightarrow> Inl e
      | Inr f \<Rightarrow>
          (case population_fitness knn rest of
             Inl e \<Rightarrow> Inl e
           | Inr fs \<Rightarrow> Inr (f # fs)))"

text \<open>The four \<open>\<epsilon>\<close>-guarded denominators of one iteration. NumPy does not raise on a zero
  denominator; the model leaves the real numbers there and reports \<open>NonFinite\<close>.\<close>

definition mass_denominator :: "real \<Rightarrow> real \<Rightarrow> real" where
  "mass_denominator best worst = best - worst + eps"

definition mass_sum_denominator :: "real list \<Rightarrow> real" where
  "mass_sum_denominator m = sum_list m + eps"

definition force_denominator :: "int list \<Rightarrow> int list \<Rightarrow> real" where
  "force_denominator x_i x_j = linalg_norm (vsub x_i x_j) + eps"

definition accel_denominator :: "real \<Rightarrow> real" where
  "accel_denominator M_i = M_i + eps"

definition divisions_defined :: "real list \<Rightarrow> real \<Rightarrow> real \<Rightarrow> int list list \<Rightarrow> bool" where
  "divisions_defined fitness best worst P =
     (mass_denominator best worst \<noteq> 0
      \<and> mass_sum_denominator (raw_mass fitness best worst) \<noteq> 0
      \<and> list_all (\<lambda>x_i. list_all (\<lambda>x_j. force_denominator x_i x_j \<noteq> 0) P) P
      \<and> list_all (\<lambda>M_i. accel_denominator M_i \<noteq> 0)
           (normalized_mass (raw_mass fitness best worst)))"

definition gsa_iteration ::
  "scorer \<Rightarrow> nat \<Rightarrow> int \<Rightarrow> nat \<Rightarrow> nat \<Rightarrow> gsa_state \<Rightarrow> py_error + gsa_state"
where
  "gsa_iteration knn num_agents max_iter dim' t st =
     (case population_fitness knn (X st) of
        Inl e \<Rightarrow> Inl e
      | Inr fitness \<Rightarrow>
          (case np_min fitness of
             Inl e \<Rightarrow> Inl e
           | Inr best \<Rightarrow>
               (case np_max fitness of
                  Inl e \<Rightarrow> Inl e
                | Inr worst \<Rightarrow>
                    (let improved = lt_pyfloat best (best_fitness st);
                         best_fitness' = (if improved then Fin best else best_fitness st);
                         best_position' =
                           (if improved then Some (X st ! np_argmin fitness)
                            else best_position st)
                     in if \<not> divisions_defined fitness best worst (X st) then Inl NonFinite
                        else
                          (let m = raw_mass fitness best worst;
                               M = normalized_mass m;
                               G = gravity t max_iter;
                               (a, g1) = acceleration G M (X st) num_agents dim' (gen st);
                               (V', g2) = update_velocity num_agents dim' (V st) a g1;
                               S = map (map sigmoid) V';
                               (X', g3) = update_position num_agents dim' S g2
                           in Inr \<lparr>X = X',
                                   V = V',
                                   best_fitness = best_fitness',
                                   best_position = best_position',
                                   history_fitness = history_fitness st @ [best_fitness'],
                                   history_num_features = history_num_features st @
                                     [case best_position' of None \<Rightarrow> 0
                                      | Some p \<Rightarrow> count_nonzero p],
                                   feature_selection_counter =
                                     map2 (\<lambda>c s. c + real_of_int s)
                                       (feature_selection_counter st) (column_sums dim' X'),
                                   all_positions = all_positions st @ [X'],
                                   gen = g3\<rparr>)))))"

text \<open>\<^verbatim>\<open>for t in range(max_iter)\<close>, over the list of iteration indices.\<close>

fun gsa_loop ::
  "scorer \<Rightarrow> nat \<Rightarrow> int \<Rightarrow> nat \<Rightarrow> nat list \<Rightarrow> gsa_state \<Rightarrow> py_error + gsa_state"
where
  "gsa_loop knn num_agents max_iter dim' [] st = Inr st"
| "gsa_loop knn num_agents max_iter dim' (t # ts) st =
     (case gsa_iteration knn num_agents max_iter dim' t st of
        Inl e \<Rightarrow> Inl e
      | Inr st' \<Rightarrow> gsa_loop knn num_agents max_iter dim' ts st')"

definition initial_state :: "nat \<Rightarrow> nat \<Rightarrow> rng \<Rightarrow> gsa_state" where
  "initial_state n d g =
     (let (X0, g0) = np_random_randint_0_2 n d g
      in \<lparr>X = X0,
          V = replicate n (replicate d 0),
          best_fitness = PosInf,
          best_position = None,
          history_fitness = [],
          history_num_features = [],
          feature_selection_counter = replicate d 0,
          all_positions = [],
          gen = g0\<rparr>)"

type_synonym gsa_result =
  "int list option \<times> pyfloat \<times> pyfloat list \<times> nat list \<times> real list \<times> int list list list"

definition GSA_feature_selection ::
  "scorer \<Rightarrow> int \<Rightarrow> int \<Rightarrow> int \<Rightarrow> rng \<Rightarrow> py_error + gsa_result"
where
  "GSA_feature_selection knn num_agents max_iter dim' g =
     (if num_agents < 0 \<or> dim' < 0 then Inl ValueError
      else
        (case gsa_loop knn (nat num_agents) max_iter (nat dim') [0..<nat max_iter]
                (initial_state (nat num_agents) (nat dim') g) of
           Inl e \<Rightarrow> Inl e
         | Inr st \<Rightarrow>
             Inr (best_position st, one_minus (best_fitness st), history_fitness st,
                  history_num_features st, feature_selection_counter st, all_positions st)))"

subsection \<open>Predicates used in the statements\<close>

text \<open>A matrix of \<open>n\<close> rows and \<open>d\<close> columns whose entries are 0 or 1.\<close>

definition binary_matrix :: "nat \<Rightarrow> nat \<Rightarrow> int list list \<Rightarrow> bool" where
  "binary_matrix n d P =
     (length P = n \<and> list_all (\<lambda>row. length row = d \<and> list_all (\<lambda>x. x = 0 \<or> x = 1) row) P)"

text \<open>Loop invariants: the recorded best fitness never increases, and the counter holds,
  for every feature, the number of recorded rows in which its bit is 1.\<close>

definition history_inv :: "gsa_state \<Rightarrow> bool" where
  "history_inv st =
     (sorted_wrt (\<lambda>a b. le_pyfloat b a) (history_fitness st)
      \<and> list_all (\<lambda>h. le_pyfloat (best_fitness st) h) (history_fitness st))"

definition bit_count :: "nat \<Rightarrow> int list list list \<Rightarrow> nat" where
  "bit_count k ap = length (filter (\<lambda>row. row ! k = 1) (concat ap))"

definition counter_inv :: "nat \<Rightarrow> gsa_state \<Rightarrow> bool" where
  "counter_inv d st =
     (feature_selection_counter st = map (\<lambda>k. real (bit_count k (all_positions st))) [0..<d])"

subsection \<open>Example inputs\<close>

text \<open>A generator that hands out the given sequence of uniform draws (each in \<open>[0, 1)\<close>)
  and the bit 1 for every initial position.\<close>

definition example_rng :: "(nat \<Rightarrow> real) \<Rightarrow> rng" where
  "example_rng u =
     \<lparr>rand_stream = (\<lambda>k. Abs_unit_draw (u k)), randint_stream = (\<lambda>k. True),
      rand_used = 0, randint_used = 0\<rparr>"

text \<open>A classifier that scores the full feature pair 0.9 and any other selection 0.95, a
  sequence of draws, and the states a single agent over two features passes through.\<close>

definition example_knn :: scorer where
  "example_knn sel = Some (if sel = [0, 1] then 9 / 10 else 19 / 20)"

definition example_draws :: "nat \<Rightarrow> real" where
  "example_draws k = (if k = 3 \<or> k = 6 then 3 / 4 else 0)"

definition example_gen :: "nat \<Rightarrow> rng" where
  "example_gen used =
     \<lparr>rand_stream = (\<lambda>k. Abs_unit_draw (example_draws k)), randint_stream = (\<lambda>k. True),
      rand_used = used,
      randint_used = 2\<rparr>"

definition example_state_1 :: gsa_state where
  "example_state_1 =
     \<lparr>X = [[1, 0]], V = [[0, 0]], best_fitness = Fin (11 / 100), best_position = Some [1, 1],
      history_fitness = [Fin (11 / 100)], history_num_features = [2],
      feature_selection_counter = [1, 0], all_positions = [[[1, 0]]],
      gen = example_gen 4\<rparr>"

definition example_state_2 :: gsa_state where
  "example_state_2 =
     \<lparr>X = [[0, 1]], V = [[0, 0]], best_fitness = Fin (11 / 200), best_position = Some [1, 0],
      history_fitness = [Fin (11 / 100), Fin (11 / 200)], history_num_features = [2, 1],
      feature_selection_counter = [1, 1], all_positions = [[[1, 0]], [[0, 1]]],
      gen = example_gen 8\<rparr>"

definition example_state_3 :: gsa_state where
  "example_state_3 =
     \<lparr>X = [[1, 1]], V = [[0, 0]], best_fitness = Fin (11 / 200), best_position = Some [1, 0],
      history_fitness = [Fin (11 / 100), Fin (11 / 200), Fin (11 / 200)],
      history_num_features = [2, 1, 1],
      feature_selection_counter = [2, 2], all_positions = [[[1, 0]], [[0, 1]], [[1, 1]]],
      gen = example_gen 12\<rparr>"

text \<open>What a run over zero features looks like after \<open>k\<close> iterations.\<close>

definition dim0_inv :: "nat \<Rightarrow> nat \<Rightarrow> gsa_state \<Rightarrow> bool" where
  "dim0_inv n k s =
     (X s = replicate n [] \<and> V s = replicate n [] \<and> feature_selection_counter s = []
      \<and> history_fitness s = replicate k (Fin 1)
      \<and> history_num_features s = replicate k 0
      \<and> all_positions s = replicate k (replicate n [])
      \<and> best_fitness s = (if k = 0 then PosInf else Fin 1)
      \<and> best_position s = (if k = 0 then None else Some []))"

text \<open>The closed form of the force accumulation: the draws \<open>u c, u (c + 1), \<dots>\<close> weight the
  values \<open>F j\<close> of the agents \<open>j \<noteq> i\<close> in list order; and the position of the ordered pair
  \<open>(i, j)\<close> in the sequence of draws of one acceleration pass.\<close>

fun weighted_forces :: "(nat \<Rightarrow> real) \<Rightarrow> nat \<Rightarrow> (nat \<Rightarrow> real) \<Rightarrow> nat \<Rightarrow> nat list \<Rightarrow> real" where
  "weighted_forces u c F i [] = 0"
| "weighted_forces u c F i (j # js) =
     (if i \<noteq> j then u c * F j + weighted_forces u (Suc c) F i js
      else weighted_forces u c F i js)"

definition pair_index :: "nat \<Rightarrow> nat \<Rightarrow> nat \<Rightarrow> nat" where
  "pair_index n i j = i * (n - 1) + (if j < i then j else j - 1)"

section \<open>Auxiliary facts\<close>

subsection \<open>The random source\<close>

lemma rand_value_range: "0 \<le> rand_value g q \<and> rand_value g q < 1"
  using Rep_unit_draw [of "rand_stream g q"] by (simp add: rand_value_def)

lemma rand_value_rand_used [simp]: "rand_value (g\<lparr>rand_used := c\<rparr>) = rand_value g"
  by (rule ext) (simp add: rand_value_def)

lemma unit_draw_inverse:
  assumes "0 \<le> x" and "x < 1"
  shows "Rep_unit_draw (Abs_unit_draw x) = x"
  using assms by (simp add: Abs_unit_draw_inverse)

subsection \<open>The evaluator\<close>

lemma count_nonzero_zero_iff: "count_nonzero v = 0 \<longleftrightarrow> list_all (\<lambda>x. x = 0) v"
  by (induction v) (auto simp: count_nonzero_def)

lemma count_nonzero_le_length: "count_nonzero v \<le> length v"
  by (simp add: count_nonzero_def)

lemma length_where_eq_1: "length (where_eq_1 bv) = length (filter (\<lambda>x. x = 1) bv)"
proof -
  have "filter (\<lambda>x. x = 1) (map (nth bv) [0..<length bv]) =
        map (nth bv) (filter ((\<lambda>x. x = 1) \<circ> nth bv) [0..<length bv])"
    by (rule filter_map)
  then have "length (filter (\<lambda>x. x = 1) bv) =
             length (filter ((\<lambda>x. x = 1) \<circ> nth bv) [0..<length bv])"
    by (simp add: map_nth)
  then show ?thesis by (simp add: where_eq_1_def comp_def)
qed

lemma binary_count_nonzero:
  assumes "set bv \<subseteq> {0, 1}"
  shows "count_nonzero bv = length (where_eq_1 bv)"
proof -
  have "filter (\<lambda>x. x \<noteq> 0) bv = filter (\<lambda>x. x = 1) bv"
    using assms by (intro filter_cong) auto
  then show ?thesis by (simp add: count_nonzero_def length_where_eq_1)
qed

subsection \<open>One iteration and the loop\<close>

lemma gsa_iteration_Inr:
  assumes "gsa_iteration knn n T d t st = Inr st'"
  obtains fitness a g1 V' g2 X' g3 where
    "population_fitness knn (X st) = Inr fitness"
    "fitness \<noteq> []"
    "divisions_defined fitness (Min (set fitness)) (Max (set fitness)) (X st)"
    "acceleration (gravity t T)
       (normalized_mass (raw_mass fitness (Min (set fitness)) (Max (set fitness))))
       (X st) n d (gen st) = (a, g1)"
    "update_velocity n d (V st) a g1 = (V', g2)"
    "update_position n d (map (map sigmoid) V') g2 = (X', g3)"
    "X st' = X'"
    "V st' = V'"
    "best_fitness st' =
       (if lt_pyfloat (Min (set fitness)) (best_fitness st) then Fin (Min (set fitness))
        else best_fitness st)"
    "best_position st' =
       (if lt_pyfloat (Min (set fitness)) (best_fitness st)
        then Some (X st ! np_argmin fitness) else best_position st)"
    "history_fitness st' = history_fitness st @ [best_fitness st']"
    "history_num_features st' = history_num_features st @
       [case best_position st' of None \<Rightarrow> 0 | Some p \<Rightarrow> count_nonzero p]"
    "feature_selection_counter st' =
       map2 (\<lambda>c s. c + real_of_int s) (feature_selection_counter st) (column_sums d X')"
    "all_positions st' = all_positions st @ [X']"
    "gen st' = g3"
  using assms
  unfolding gsa_iteration_def np_min_def np_max_def
  by (auto simp: Let_def split: sum.splits if_splits prod.splits)

lemma gsa_loop_invariant:
  assumes "gsa_loop knn n T d ts st = Inr st'"
    and "I st"
    and "\<And>t s s'. t \<in> set ts \<Longrightarrow> I s \<Longrightarrow> gsa_iteration knn n T d t s = Inr s' \<Longrightarrow> I s'"
  shows "I st'"
  using assms
proof (induction ts arbitrary: st)
  case Nil
  then show ?case by simp
next
  case (Cons t ts)
  from Cons.prems(1) obtain s1 where s1: "gsa_iteration knn n T d t st = Inr s1"
    and rest: "gsa_loop knn n T d ts s1 = Inr st'"
    by (auto split: sum.splits)
  have s1I: "I s1"
    by (rule Cons.prems(3) [OF _ Cons.prems(2) s1]) simp
  have step: "I s'" if "u \<in> set ts" "I s" "gsa_iteration knn n T d u s = Inr s'" for u s s'
    by (rule Cons.prems(3) [OF _ that(2) that(3)]) (simp add: that(1))
  show ?case
    by (rule Cons.IH [OF rest s1I step])
qed

lemma update_position_binary:
  assumes "update_position n d S g = (P, g')"
  shows "binary_matrix n d P"
  using assms
  by (auto simp: update_position_def np_random_rand_nd_def binary_matrix_def list_all_iff Let_def)

lemma randint_binary:
  assumes "np_random_randint_0_2 n d g = (P, g')"
  shows "binary_matrix n d P"
  using assms
  by (auto simp: np_random_randint_0_2_def binary_matrix_def list_all_iff)

lemma gsa_iteration_binary:
  assumes "gsa_iteration knn n T d t st = Inr st'"
  shows "binary_matrix n d (X st')" and "all_positions st' = all_positions st @ [X st']"
  using assms by (auto elim!: gsa_iteration_Inr dest: update_position_binary)

lemma gsa_loop_all_positions:
  assumes "gsa_loop knn n T d ts st = Inr st'"
    and "list_all (binary_matrix n d) (all_positions st)"
  shows "list_all (binary_matrix n d) (all_positions st')"
  using assms(1)
proof (rule gsa_loop_invariant)
  show "list_all (binary_matrix n d) (all_positions st)" by (rule assms(2))
next
  fix t s s'
  assume "list_all (binary_matrix n d) (all_positions s)" "gsa_iteration knn n T d t s = Inr s'"
  then show "list_all (binary_matrix n d) (all_positions s')"
    using gsa_iteration_binary [of knn n T d t s s'] by simp
qed

lemma gsa_loop_length_all_positions:
  assumes "gsa_loop knn n T d ts st = Inr st'"
  shows "length (all_positions st') = length (all_positions st) + length ts"
  using assms
proof (induction ts arbitrary: st)
  case Nil
  then show ?case by simp
next
  case (Cons t ts)
  from Cons.prems obtain s1 where s1: "gsa_iteration knn n T d t st = Inr s1"
    and rest: "gsa_loop knn n T d ts s1 = Inr st'"
    by (auto split: sum.splits)
  show ?case using Cons.IH [OF rest] gsa_iteration_binary(2) [OF s1] by simp
qed

lemma GSA_feature_selection_Inr:
  assumes "GSA_feature_selection knn num_agents max_iter dim' g = Inr (bp, score, hf, hnf, fsc, ap)"
  obtains st where
    "0 \<le> num_agents" "0 \<le> dim'"
    "gsa_loop knn (nat num_agents) max_iter (nat dim') [0..<nat max_iter]
       (initial_state (nat num_agents) (nat dim') g) = Inr st"
    "bp = best_position st" "score = one_minus (best_fitness st)"
    "hf = history_fitness st" "hnf = history_num_features st"
    "fsc = feature_selection_counter st" "ap = all_positions st"
  using assms unfolding GSA_feature_selection_def
  by (auto split: if_splits sum.splits)

lemma initial_state_simps:
  "X (initial_state n d g) = fst (np_random_randint_0_2 n d g)"
  "V (initial_state n d g) = replicate n (replicate d 0)"
  "best_fitness (initial_state n d g) = PosInf"
  "best_position (initial_state n d g) = None"
  "history_fitness (initial_state n d g) = []"
  "history_num_features (initial_state n d g) = []"
  "feature_selection_counter (initial_state n d g) = replicate d 0"
  "all_positions (initial_state n d g) = []"
  by (simp_all add: initial_state_def split: prod.splits)

subsection \<open>Order on extended floats\<close>

lemma le_pyfloat_refl: "le_pyfloat x x"
  by (cases x) simp_all

lemma le_pyfloat_trans: "le_pyfloat x y \<Longrightarrow> le_pyfloat y z \<Longrightarrow> le_pyfloat x z"
  by (cases x; cases y; cases z) simp_all

lemma lt_pyfloat_le: "lt_pyfloat r x \<Longrightarrow> le_pyfloat (Fin r) x"
  by (cases x) simp_all

lemma gsa_iteration_best_le:
  assumes "gsa_iteration knn n T d t st = Inr st'"
  shows "le_pyfloat (best_fitness st') (best_fitness st)"
  using assms by (auto elim!: gsa_iteration_Inr simp: lt_pyfloat_le le_pyfloat_refl)

lemma gsa_iteration_history_inv:
  assumes it: "gsa_iteration knn n T d t st = Inr st'" and inv: "history_inv st"
  shows "history_inv st'"
proof -
  have le: "le_pyfloat (best_fitness st') (best_fitness st)"
    using it by (rule gsa_iteration_best_le)
  have hist: "history_fitness st' = history_fitness st @ [best_fitness st']"
    using it by (auto elim!: gsa_iteration_Inr)
  have all: "list_all (\<lambda>h. le_pyfloat (best_fitness st') h) (history_fitness st)"
    using inv le unfolding history_inv_def list_all_iff
    by (blast intro: le_pyfloat_trans)
  show ?thesis
    using inv all unfolding history_inv_def hist
    by (simp add: sorted_wrt_append list_all_iff le_pyfloat_refl)
qed

lemma gsa_loop_history_inv:
  assumes "gsa_loop knn n T d ts st = Inr st'" and "history_inv st"
  shows "history_inv st'"
  using assms(1)
proof (rule gsa_loop_invariant)
  show "history_inv st" by (rule assms(2))
next
  fix t s s'
  assume "history_inv s" "gsa_iteration knn n T d t s = Inr s'"
  then show "history_inv s'" by (simp add: gsa_iteration_history_inv)
qed

subsection \<open>The selection counter\<close>

lemma sum_bits_count:
  assumes "\<forall>row \<in> set P. row ! k = 0 \<or> row ! k = (1::int)"
  shows "sum_list (map (\<lambda>row. row ! k) P) = int (length (filter (\<lambda>row. row ! k = 1) P))"
  using assms by (induction P) auto

lemma binary_matrix_nth:
  assumes "binary_matrix n d P" "row \<in> set P" "k < d"
  shows "row ! k = 0 \<or> row ! k = 1"
  using assms by (auto simp: binary_matrix_def list_all_iff)

lemma column_sums_binary:
  assumes "binary_matrix n d P"
  shows "column_sums d P = map (\<lambda>k. int (length (filter (\<lambda>row. row ! k = 1) P))) [0..<d]"
  unfolding column_sums_def
proof (rule map_cong [OF refl])
  fix k assume "k \<in> set [0..<d]"
  then have "k < d" by simp
  then have "\<forall>row \<in> set P. row ! k = 0 \<or> row ! k = 1"
    using assms binary_matrix_nth by blast
  then show "sum_list (map (\<lambda>row. row ! k) P) = int (length (filter (\<lambda>row. row ! k = 1) P))"
    by (rule sum_bits_count)
qed

lemma map2_map_map: "map2 f (map g xs) (map h xs) = map (\<lambda>x. f (g x) (h x)) xs"
  by (induction xs) simp_all

lemma gsa_iteration_counter_inv:
  assumes it: "gsa_iteration knn n T d t st = Inr st'" and inv: "counter_inv d st"
  shows "counter_inv d st'"
proof -
  have bin: "binary_matrix n d (X st')" and ap: "all_positions st' = all_positions st @ [X st']"
    using gsa_iteration_binary [OF it] by simp_all
  have c: "feature_selection_counter st' =
       map2 (\<lambda>c s. c + real_of_int s) (feature_selection_counter st) (column_sums d (X st'))"
    using it by (auto elim!: gsa_iteration_Inr)
  show ?thesis
    unfolding counter_inv_def c ap column_sums_binary [OF bin]
    using inv
    by (simp add: counter_inv_def map2_map_map bit_count_def)
qed

lemma gsa_loop_counter_inv:
  assumes "gsa_loop knn n T d ts st = Inr st'" and "counter_inv d st"
  shows "counter_inv d st'"
  using assms(1)
proof (rule gsa_loop_invariant)
  show "counter_inv d st" by (rule assms(2))
next
  fix t s s'
  assume "counter_inv d s" "gsa_iteration knn n T d t s = Inr s'"
  then show "counter_inv d s'" by (simp add: gsa_iteration_counter_inv)
qed

lemma length_concat_binary:
  assumes "list_all (binary_matrix n d) ap"
  shows "length (concat ap) = n * length ap"
  using assms by (induction ap) (auto simp: binary_matrix_def)

subsection \<open>Denominators\<close>

text \<open>The four named denominators are the divisors of the four guarded divisions.\<close>

lemma guarded_divisions:
  "raw_mass fitness best worst =
     map (\<lambda>f. (f - worst) / mass_denominator best worst) fitness"
  "normalized_mass m = map (\<lambda>x. x / mass_sum_denominator m) m"
  "pair_force G M P i j =
     map (\<lambda>x. G * (M ! i) * (M ! j) * real_of_int x / force_denominator (P ! i) (P ! j))
       (vsub (P ! j) (P ! i))"
  "accel_loop G M P n d (i # rest) g =
     (let (total_force, g1) = force_loop G M P i [0..<n] (replicate d 0, g);
          a_i = map (\<lambda>f. f / accel_denominator (M ! i)) total_force;
          (a_rest, g2) = accel_loop G M P n d rest g1
      in (a_i # a_rest, g2))"
  by (simp_all add: raw_mass_def normalized_mass_def pair_force_def mass_denominator_def
      mass_sum_denominator_def force_denominator_def accel_denominator_def Let_def)

lemma eps_pos: "0 < eps"
  by (simp add: eps_def)

lemma sum_list_squares_nonneg: "0 \<le> sum_list (map (\<lambda>x. (real_of_int x)\<^sup>2) v)"
  by (induction v) simp_all

lemma linalg_norm_nonneg: "0 \<le> linalg_norm v"
  by (simp add: linalg_norm_def sum_list_squares_nonneg)

lemma force_denominator_pos: "0 < force_denominator x y"
  using linalg_norm_nonneg [of "vsub x y"] eps_pos by (simp add: force_denominator_def)

lemma force_denominator_nonzero: "force_denominator x y \<noteq> 0"
  using force_denominator_pos [of x y] by simp

subsection \<open>Evaluating the example runs\<close>

lemma replicate_2: "replicate 2 x = [x, x]"
  by (simp add: numeral_2_eq_2)

lemmas gsa_eval =
  initial_state_def np_random_randint_0_2_def upt_rec
  gsa_iteration_def evaluate_solution_def count_nonzero_def where_eq_1_def np_min_def np_max_def
  divisions_defined_def mass_denominator_def mass_sum_denominator_def accel_denominator_def
  force_denominator_nonzero raw_mass_def normalized_mass_def eps_def vsub_def acceleration_def
  pair_force_def update_velocity_def update_position_def np_random_rand_nd_def
  np_random_rand_def sigmoid_def column_sums_def np_argmin_def Let_def replicate_2
  example_rng_def rand_value_def unit_draw_inverse

lemma example_run_two_agents:
  "GSA_feature_selection (\<lambda>sel. Some (9 / 10)) 2 2 2
     (example_rng (\<lambda>k. if k < 8 then 0 else 3 / 4)) =
     Inr (Some [1, 1], Fin (89 / 100), [Fin (11 / 100), Fin (11 / 100)], [2, 2], [1, 1],
          [[[1, 1], [0, 0]], [[0, 0], [0, 0]]])"
  by (simp add: GSA_feature_selection_def gsa_eval)

lemma example_run_one_iteration:
  "GSA_feature_selection (\<lambda>sel. Some (4 / 5)) 2 1 2
     (example_rng (\<lambda>k. if k < 7 then 0 else 3 / 4)) =
     Inr (Some [1, 1], Fin (79 / 100), [Fin (21 / 100)], [2], [1, 0], [[[1, 0], [0, 0]]])"
  by (simp add: GSA_feature_selection_def gsa_eval)

lemmas example_eval =
  gsa_eval example_knn_def example_draws_def example_gen_def
  example_state_1_def example_state_2_def example_state_3_def

lemma example_iteration_0:
  "gsa_iteration example_knn 1 3 2 0 (initial_state 1 2 (example_rng example_draws)) =
     Inr example_state_1"
  by (simp add: example_eval)

lemma example_iteration_1:
  "gsa_iteration example_knn 1 3 2 1 example_state_1 = Inr example_state_2"
  by (simp add: example_eval)

lemma example_iteration_2:
  "gsa_iteration example_knn 1 3 2 2 example_state_2 = Inr example_state_3"
  by (simp add: example_eval)

lemma example_run_three_iterations:
  "GSA_feature_selection example_knn 1 3 2 (example_rng example_draws) =
     Inr (Some [1, 0], Fin (189 / 200), [Fin (11 / 100), Fin (11 / 200), Fin (11 / 200)],
          [2, 1, 1], [2, 2], [[[1, 0]], [[0, 1]], [[1, 1]]])"
proof -
  have "gsa_loop example_knn 1 3 2 [0, 1, 2] (initial_state 1 2 (example_rng example_draws)) =
        Inr example_state_3"
    by (simp only: gsa_loop.simps example_iteration_0 example_iteration_1 example_iteration_2
          sum.case)
  moreover have "[0..<nat 3] = [0, 1, 2]"
    by (simp add: upt_rec)
  ultimately show ?thesis
    by (simp add: GSA_feature_selection_def example_state_3_def)
qed

subsection \<open>Drawing a matrix\<close>

lemma rand_nd_nth:
  assumes "i < n" "k < d"
  shows "fst (np_random_rand_nd n d g) ! i ! k = rand_value g (rand_used g + i * d + k)"
  using assms by (simp add: np_random_rand_nd_def)

lemma row_major_index_inj:
  fixes d :: nat
  assumes "k < d" "k' < d" "i * d + k = i' * d + k'"
  shows "i = i' \<and> k = k'"
proof -
  have "i = (i * d + k) div d" using assms(1) by simp
  also have "\<dots> = (i' * d + k') div d" using assms(3) by simp
  also have "\<dots> = i'" using assms(2) by simp
  finally have "i = i'" .
  then show ?thesis using assms(3) by simp
qed

subsection \<open>A population without features\<close>

lemma force_loop_no_columns:
  "fst (force_loop G M P i js ([], g)) = []"
  by (induction js arbitrary: g) (auto simp: Let_def split: prod.splits)

lemma accel_loop_no_columns:
  "fst (accel_loop G M P n 0 rows g) = replicate (length rows) []"
proof (induction rows arbitrary: g)
  case Nil
  then show ?case by simp
next
  case (Cons i rows)
  obtain tf g1 where f: "force_loop G M P i [0..<n] ([], g) = (tf, g1)"
    by (cases "force_loop G M P i [0..<n] ([], g)")
  then have tf: "tf = []"
    using force_loop_no_columns [of G M P i "[0..<n]" g] by simp
  obtain ar g2 where a: "accel_loop G M P n 0 rows g1 = (ar, g2)"
    by (cases "accel_loop G M P n 0 rows g1")
  then have "ar = replicate (length rows) []"
    using Cons.IH [of g1] by simp
  then show ?case
    using f tf a by simp
qed

lemma population_fitness_no_columns:
  "population_fitness knn (replicate n []) = Inr (replicate n 1)"
  by (induction n) (simp_all add: evaluate_solution_def count_nonzero_def)

lemma map_const_upt: "map (\<lambda>i. c) [0..<n] = replicate n c"
  by (simp add: map_replicate_const)

lemma gsa_iteration_no_columns:
  assumes n: "0 < n" and inv: "dim0_inv n k s"
  shows "\<exists>s'. gsa_iteration knn n T 0 t s = Inr s' \<and> dim0_inv n (Suc k) s'"
proof -
  obtain m where m: "n = Suc m" using n by (cases n) simp_all
  have Xs: "X s = replicate n []" and Vs: "V s = replicate n []"
    and cs: "feature_selection_counter s = []"
    using inv by (simp_all add: dim0_inv_def)
  have fit: "population_fitness knn (X s) = Inr (replicate n 1)"
    by (simp add: Xs population_fitness_no_columns)
  have set1: "set (replicate n (1::real)) = {1}"
    unfolding m by (rule set_replicate_Suc)
  have mn: "np_min (replicate n 1) = Inr 1" and mx: "np_max (replicate n 1) = Inr 1"
    unfolding np_min_def np_max_def set1 by (simp_all add: m)
  have rm: "raw_mass (replicate n 1) 1 1 = replicate n 0"
    by (simp add: raw_mass_def)
  have nm: "normalized_mass (replicate n 0) = replicate n 0"
    by (simp add: normalized_mass_def)
  have dd: "divisions_defined (replicate n 1) 1 1 (X s)"
    unfolding divisions_defined_def rm nm
    using eps_pos
    by (simp add: mass_denominator_def mass_sum_denominator_def accel_denominator_def
        force_denominator_nonzero list_all_iff sum_list_replicate)
  obtain a g1 where acc: "acceleration (gravity t T) (replicate n 0) (X s) n 0 (gen s) = (a, g1)"
    by (cases "acceleration (gravity t T) (replicate n 0) (X s) n 0 (gen s)")
  have a: "a = replicate n []"
    using acc accel_loop_no_columns [of "gravity t T" "replicate n 0" "X s" n "[0..<n]" "gen s"]
    by (simp add: acceleration_def)
  have uv: "update_velocity n 0 vs a g1 = (replicate n [], snd (np_random_rand_nd n 0 g1))" for vs
    by (simp add: update_velocity_def np_random_rand_nd_def map_const_upt)
  have up: "update_position n 0 S g = (replicate n [], snd (np_random_rand_nd n 0 g))" for S g
    by (simp add: update_position_def np_random_rand_nd_def map_const_upt)
  have am: "np_argmin (replicate n 1) = 0"
    unfolding np_argmin_def set1 by (simp add: m)
  have x0: "X s ! 0 = []"
    by (simp add: Xs m)
  have bf: "best_fitness s = (if k = 0 then PosInf else Fin 1)"
    and bp: "best_position s = (if k = 0 then None else Some [])"
    and hf: "history_fitness s = replicate k (Fin 1)"
    and hn: "history_num_features s = replicate k 0"
    and ap: "all_positions s = replicate k (replicate n [])"
    using inv by (simp_all add: dim0_inv_def)
  show ?thesis
    unfolding gsa_iteration_def fit
    using dd
    by (simp add: Let_def mn mx rm nm acc uv up am x0 bf bp hf hn ap cs dim0_inv_def column_sums_def
        count_nonzero_def replicate_append_same)
qed

lemma gsa_loop_no_columns:
  assumes n: "0 < n" and inv: "dim0_inv n k s"
  shows "\<exists>s'. gsa_loop knn n T 0 ts s = Inr s' \<and> dim0_inv n (k + length ts) s'"
  using inv
proof (induction ts arbitrary: k s)
  case Nil
  then show ?case by simp
next
  case (Cons t ts)
  from gsa_iteration_no_columns [OF n Cons.prems, of knn T t]
  obtain s1 where s1: "gsa_iteration knn n T 0 t s = Inr s1" and i1: "dim0_inv n (Suc k) s1"
    by blast
  from Cons.IH [OF i1]
  obtain s' where "gsa_loop knn n T 0 ts s1 = Inr s'" "dim0_inv n (Suc k + length ts) s'"
    by blast
  then show ?case using s1 by simp
qed

lemma initial_state_no_columns: "dim0_inv n 0 (initial_state n 0 g)"
  by (simp add: dim0_inv_def initial_state_def np_random_randint_0_2_def map_const_upt)

subsection \<open>Masses and the guarded denominators\<close>

lemma Min_le_Max_list:
  assumes "fitness \<noteq> []"
  shows "Min (set fitness) \<le> Max (set fitness)"
  using assms by (simp add: Min.coboundedI Max_ge_iff)

lemma identical_fitness_all_worst:
  fixes fitness :: "real list"
  assumes "fitness \<noteq> []" and "Max (set fitness) - Min (set fitness) = 0" and "f \<in> set fitness"
  shows "f = Max (set fitness)"
proof -
  have "Min (set fitness) \<le> f" "f \<le> Max (set fitness)"
    using assms(3) by simp_all
  then show ?thesis using assms(2) by linarith
qed

lemma raw_mass_identical:
  assumes "fitness \<noteq> []" and "Max (set fitness) - Min (set fitness) = 0"
  shows "raw_mass fitness (Min (set fitness)) (Max (set fitness)) = replicate (length fitness) 0"
proof -
  have "map (\<lambda>f. (f - Max (set fitness)) / (Min (set fitness) - Max (set fitness) + eps)) fitness
        = map (\<lambda>f. 0) fitness"
    using identical_fitness_all_worst [OF assms] by (intro map_cong) simp_all
  then show ?thesis by (simp add: raw_mass_def map_replicate_const)
qed

lemma raw_mass_nonneg:
  assumes "eps < Max (set fitness) - Min (set fitness)" and "m \<in> set (raw_mass fitness (Min (set fitness)) (Max (set fitness)))"
  shows "0 \<le> m"
proof -
  from assms(2) obtain f where f: "f \<in> set fitness"
    and m: "m = (f - Max (set fitness)) / (Min (set fitness) - Max (set fitness) + eps)"
    by (auto simp: raw_mass_def)
  have "f - Max (set fitness) \<le> 0" using f by simp
  moreover have "Min (set fitness) - Max (set fitness) + eps < 0" using assms(1) by simp
  ultimately show ?thesis unfolding m by (simp add: divide_nonpos_neg)
qed

lemma raw_mass_best_gt_1:
  assumes "fitness \<noteq> []" and "eps < Max (set fitness) - Min (set fitness)"
  shows "\<exists>m \<in> set (raw_mass fitness (Min (set fitness)) (Max (set fitness))). 1 < m"
proof -
  let ?b = "Min (set fitness)" and ?w = "Max (set fitness)"
  have b: "?b \<in> set fitness" using assms(1) by simp
  have neg: "?b - ?w + eps < 0" using assms(2) by simp
  have "?b - ?w < ?b - ?w + eps" using eps_pos by simp
  then have "1 < (?b - ?w) / (?b - ?w + eps)"
    using neg by (simp add: neg_less_divide_eq)
  moreover have "(?b - ?w) / (?b - ?w + eps) \<in> set (raw_mass fitness ?b ?w)"
    using b by (auto simp: raw_mass_def)
  ultimately show ?thesis by blast
qed

lemma raw_mass_sum_gt_1:
  assumes "fitness \<noteq> []" and "eps < Max (set fitness) - Min (set fitness)"
  shows "1 < sum_list (raw_mass fitness (Min (set fitness)) (Max (set fitness)))"
proof -
  let ?m = "raw_mass fitness (Min (set fitness)) (Max (set fitness))"
  obtain x where x: "x \<in> set ?m" "1 < x"
    using raw_mass_best_gt_1 [OF assms] by blast
  have "x \<le> sum_list ?m"
    using x(1) raw_mass_nonneg [OF assms(2)] by (intro member_le_sum_list) auto
  then show ?thesis using x(2) by simp
qed

lemma normalized_mass_nonneg:
  assumes "fitness \<noteq> []" and "eps < Max (set fitness) - Min (set fitness)"
    and "M_i \<in> set (normalized_mass (raw_mass fitness (Min (set fitness)) (Max (set fitness))))"
  shows "0 \<le> M_i"
proof -
  let ?m = "raw_mass fitness (Min (set fitness)) (Max (set fitness))"
  from assms(3) obtain x where x: "x \<in> set ?m" and M: "M_i = x / (sum_list ?m + eps)"
    by (auto simp: normalized_mass_def)
  have "0 \<le> x" using x raw_mass_nonneg [OF assms(2)] by blast
  moreover have "0 < sum_list ?m + eps"
    using raw_mass_sum_gt_1 [OF assms(1,2)] eps_pos by simp
  ultimately show ?thesis unfolding M by simp
qed

lemma divisions_defined_spread:
  assumes "fitness \<noteq> []"
    and "Max (set fitness) - Min (set fitness) = 0 \<or> eps < Max (set fitness) - Min (set fitness)"
  shows "mass_denominator (Min (set fitness)) (Max (set fitness)) \<noteq> 0"
    and "mass_sum_denominator (raw_mass fitness (Min (set fitness)) (Max (set fitness))) \<noteq> 0"
    and "\<forall>M_i \<in> set (normalized_mass (raw_mass fitness (Min (set fitness)) (Max (set fitness)))).
             accel_denominator M_i \<noteq> 0"
    and "divisions_defined fitness (Min (set fitness)) (Max (set fitness)) P"
proof -
  let ?b = "Min (set fitness)" and ?w = "Max (set fitness)"
  let ?m = "raw_mass fitness ?b ?w"
  show d1: "mass_denominator ?b ?w \<noteq> 0"
    using assms(2) eps_pos by (auto simp: mass_denominator_def)
  show d2: "mass_sum_denominator ?m \<noteq> 0"
    using assms(2)
  proof
    assume "?w - ?b = 0"
    then have "?m = replicate (length fitness) 0"
      by (rule raw_mass_identical [OF assms(1)])
    then show ?thesis
      using eps_pos by (simp add: mass_sum_denominator_def sum_list_replicate)
  next
    assume "eps < ?w - ?b"
    then show ?thesis
      using raw_mass_sum_gt_1 [OF assms(1)] eps_pos by (simp add: mass_sum_denominator_def)
  qed
  show d4: "\<forall>M_i \<in> set (normalized_mass ?m). accel_denominator M_i \<noteq> 0"
    using assms(2)
  proof
    assume "?w - ?b = 0"
    then have "?m = replicate (length fitness) 0"
      by (rule raw_mass_identical [OF assms(1)])
    then show ?thesis
      using eps_pos by (simp add: normalized_mass_def accel_denominator_def)
  next
    assume "eps < ?w - ?b"
    then show ?thesis
      using normalized_mass_nonneg [OF assms(1)] eps_pos by (fastforce simp: accel_denominator_def)
  qed
  show "divisions_defined fitness ?b ?w P"
    using d1 d2 d4 by (simp add: divisions_defined_def list_all_iff force_denominator_nonzero)
qed

lemma gsa_iteration_not_NonFinite:
  assumes "population_fitness knn (X st) = Inr fitness"
    and "fitness \<noteq> [] \<Longrightarrow>
         Max (set fitness) - Min (set fitness) = 0 \<or> eps < Max (set fitness) - Min (set fitness)"
  shows "gsa_iteration knn n T d t st \<noteq> Inl NonFinite"
proof (cases "fitness = []")
  case True
  then show ?thesis using assms(1) by (simp add: gsa_iteration_def np_min_def)
next
  case False
  then show ?thesis
    using assms(1) divisions_defined_spread(4) [OF False assms(2) [OF False], of "X st"]
    by (simp add: gsa_iteration_def np_min_def np_max_def Let_def split: prod.splits)
qed

text \<open>
  Between the two cases of \<open>divisions_defined_spread\<close> the real-number idealisation does
  reach a zero denominator: at a fitness spread of exactly \<open>\<epsilon>\<close> the divisor of the raw
  masses vanishes. Two float64 fitness values cannot be that close (\<^verbatim>\<open>1.0 - 1e-20\<close> is
  \<^verbatim>\<open>1.0\<close>), so what happens for a spread between 0 and \<open>\<epsilon>\<close> is decided by
  floating-point rounding, which this embedding does not represent.
\<close>

lemma mass_denominator_zero_at_spread_eps: "mass_denominator (1 - eps) 1 = 0"
  by (simp add: mass_denominator_def)

subsection \<open>Fitness values of a classifier that reports a fraction of \<open>N\<close> samples\<close>

lemma evaluate_solution_grid:
  assumes acc: "\<forall>sel a. knn sel = Some a \<longrightarrow> (\<exists>k::nat. a = real k / real N)"
    and N: "0 < N"
    and ev: "evaluate_solution knn bv = Inr f"
  shows "\<exists>z::int. f = 1 - real_of_int z / real (100 * N * length bv)"
proof (cases "count_nonzero bv = 0")
  case True
  then have "f = 1" using ev by (simp add: evaluate_solution_def)
  then have "f = 1 - real_of_int 0 / real (100 * N * length bv)" by simp
  then show ?thesis by blast
next
  case False
  then obtain a where a: "knn (where_eq_1 bv) = Some a"
    and f: "f = 1 - (a - (1 / 100) * (real (count_nonzero bv) / real (length bv)))"
    using ev by (auto simp: evaluate_solution_def Let_def split: option.splits)
  obtain k :: nat where k: "a = real k / real N" using acc a by blast
  have d: "0 < length bv" using False count_nonzero_le_length [of bv] by linarith
  let ?z = "int (100 * length bv * k) - int (N * count_nonzero bv)"
  have "f = 1 - real_of_int ?z / real (100 * N * length bv)"
    unfolding f k using N d by (simp add: field_simps)
  then show ?thesis by blast
qed

lemma population_fitness_grid:
  assumes acc: "\<forall>sel a. knn sel = Some a \<longrightarrow> (\<exists>k::nat. a = real k / real N)"
    and N: "0 < N"
    and rows: "\<forall>row \<in> set P. length row = d"
    and pf: "population_fitness knn P = Inr fs"
    and f: "f \<in> set fs"
  shows "\<exists>z::int. f = 1 - real_of_int z / real (100 * N * d)"
  using rows pf f
proof (induction P arbitrary: fs)
  case Nil
  then show ?case by simp
next
  case (Cons bv P)
  from Cons.prems(2) obtain f0 fs0 where ev: "evaluate_solution knn bv = Inr f0"
    and rest: "population_fitness knn P = Inr fs0" and fs: "fs = f0 # fs0"
    by (auto split: sum.splits)
  from Cons.prems(3) fs consider "f = f0" | "f \<in> set fs0" by auto
  then show ?case
  proof cases
    case 1
    then show ?thesis
      using evaluate_solution_grid [OF acc N ev] Cons.prems(1) by simp
  next
    case 2
    then show ?thesis
      using Cons.IH [OF _ rest] Cons.prems(1) by simp
  qed
qed

lemma grid_spread:
  fixes N d :: nat
  assumes q: "100 * N * d < 10 ^ 20"
    and a: "a = 1 - real_of_int za / real (100 * N * d)"
    and b: "b = 1 - real_of_int zb / real (100 * N * d)"
    and le: "b \<le> a"
  shows "a - b = 0 \<or> eps < a - b"
proof (cases "100 * N * d = 0")
  case True
  then show ?thesis using a b by simp
next
  case False
  let ?q = "real (100 * N * d)"
  have qpos: "0 < ?q" using False by simp
  have diff: "a - b = real_of_int (zb - za) / ?q"
    unfolding a b by (simp add: diff_divide_distrib)
  show ?thesis
  proof (cases "zb = za")
    case True
    then show ?thesis using diff by simp
  next
    case ne: False
    have "0 \<le> real_of_int (zb - za) / ?q" using le diff by simp
    then have "0 \<le> real_of_int (zb - za)" using qpos by (simp add: zero_le_divide_iff)
    then have "1 \<le> zb - za" using ne by simp
    then have "1 \<le> real_of_int (zb - za)" by linarith
    then have "1 / ?q \<le> a - b"
      unfolding diff using qpos by (simp add: divide_right_mono)
    moreover have "real (100 * N * d) < real (10 ^ 20)"
      using q by (simp only: of_nat_less_iff)
    then have "?q < 10 ^ 20" by simp
    then have "eps < 1 / ?q"
      unfolding eps_def using qpos by (simp add: field_simps)
    ultimately show ?thesis by simp
  qed
qed

lemma population_fitness_spread:
  assumes acc: "\<forall>sel a. knn sel = Some a \<longrightarrow> (\<exists>k::nat. a = real k / real N)"
    and N: "0 < N"
    and q: "100 * N * d < 10 ^ 20"
    and rows: "\<forall>row \<in> set P. length row = d"
    and pf: "population_fitness knn P = Inr fitness"
    and False: "fitness \<noteq> []"
  shows "Max (set fitness) - Min (set fitness) = 0 \<or> eps < Max (set fitness) - Min (set fitness)"
proof -
  from False have mx: "Max (set fitness) \<in> set fitness" and mn: "Min (set fitness) \<in> set fitness"
    by simp_all
  obtain za where za: "Max (set fitness) = 1 - real_of_int za / real (100 * N * d)"
    using population_fitness_grid [OF acc N rows pf mx] by blast
  obtain zb where zb: "Min (set fitness) = 1 - real_of_int zb / real (100 * N * d)"
    using population_fitness_grid [OF acc N rows pf mn] by blast
  show ?thesis
    using grid_spread [OF q za zb] Min_le_Max_list [OF False] by simp
qed



lemma evaluate_solution_error:
  "evaluate_solution knn bv = Inl e \<Longrightarrow> e = ScorerError"
  by (auto simp: evaluate_solution_def Let_def split: if_splits option.splits)

lemma population_fitness_error:
  "population_fitness knn P = Inl e \<Longrightarrow> e = ScorerError"
  by (induction P) (auto split: sum.splits dest: evaluate_solution_error)

lemma gsa_iteration_rational_accuracy:
  assumes acc: "\<forall>sel a. knn sel = Some a \<longrightarrow> (\<exists>k::nat. a = real k / real N)"
    and N: "0 < N"
    and q: "100 * N * d < 10 ^ 20"
    and rows: "\<forall>row \<in> set (X st). length row = d"
  shows "gsa_iteration knn n T d t st \<noteq> Inl NonFinite"
proof (cases "population_fitness knn (X st)")
  case (Inl e)
  then have "gsa_iteration knn n T d t st = Inl e" by (simp add: gsa_iteration_def)
  moreover have "e = ScorerError" using Inl by (rule population_fitness_error)
  ultimately show ?thesis by simp
next
  case (Inr fitness)
  show ?thesis
    by (rule gsa_iteration_not_NonFinite [OF Inr])
       (rule population_fitness_spread [OF acc N q rows Inr])
qed

lemma gsa_loop_error_origin:
  assumes "gsa_loop knn n T d ts st = Inl e"
    and "I st"
    and "\<And>t s s'. I s \<Longrightarrow> gsa_iteration knn n T d t s = Inr s' \<Longrightarrow> I s'"
  shows "\<exists>t s. I s \<and> gsa_iteration knn n T d t s = Inl e"
  using assms(1,2)
proof (induction ts arbitrary: st)
  case Nil
  then show ?case by simp
next
  case (Cons t ts)
  show ?case
  proof (cases "gsa_iteration knn n T d t st")
    case (Inl e')
    then have "e' = e" using Cons.prems(1) by simp
    then show ?thesis using Inl Cons.prems(2) by blast
  next
    case (Inr s1)
    then have "gsa_loop knn n T d ts s1 = Inl e" using Cons.prems(1) by simp
    moreover have "I s1" using assms(3) [OF Cons.prems(2) Inr] .
    ultimately show ?thesis by (rule Cons.IH)
  qed
qed

lemma GSA_rational_accuracy:
  assumes acc: "\<forall>sel a. knn sel = Some a \<longrightarrow> (\<exists>k::nat. a = real k / real N)"
    and N: "0 < N"
    and q: "100 * N * nat dim' < 10 ^ 20"
  shows "GSA_feature_selection knn num_agents max_iter dim' g \<noteq> Inl NonFinite"
proof
  assume bad: "GSA_feature_selection knn num_agents max_iter dim' g = Inl NonFinite"
  define n where "n = nat num_agents"
  define d where "d = nat dim'"
  define I where "I = (\<lambda>s :: gsa_state. list_all (\<lambda>row. length row = d) (X s))"
  from bad have loop: "gsa_loop knn n max_iter d [0..<nat max_iter] (initial_state n d g) = Inl NonFinite"
    unfolding n_def d_def
    by (simp add: GSA_feature_selection_def split: if_splits sum.splits)
  have init: "I (initial_state n d g)"
    by (simp add: I_def initial_state_simps np_random_randint_0_2_def list_all_iff)
  have step: "I s'" if "I s" "gsa_iteration knn n max_iter d t s = Inr s'" for t s s'
    using gsa_iteration_binary(1) [OF that(2)] by (simp add: I_def binary_matrix_def list_all_iff)
  have "\<exists>t s. I s \<and> gsa_iteration knn n max_iter d t s = Inl NonFinite"
    using loop init step by (rule gsa_loop_error_origin)
  then obtain t s where s: "I s" and it: "gsa_iteration knn n max_iter d t s = Inl NonFinite"
    by blast
  have rows: "\<forall>row \<in> set (X s). length row = d"
    using s by (simp add: I_def list_all_iff)
  have "100 * N * d < 10 ^ 20" using q by (simp add: d_def)
  from gsa_iteration_rational_accuracy [OF acc N this rows] it
  show False by simp
qed

subsection \<open>The force accumulation in closed form\<close>

lemma length_vsub: "length (vsub u v) = min (length u) (length v)"
  by (simp add: vsub_def)

lemma length_pair_force:
  assumes "length (P ! i) = d" "length (P ! j) = d"
  shows "length (pair_force G M P i j) = d"
  using assms by (simp add: pair_force_def Let_def length_vsub)

lemma pair_force_nth:
  assumes "length (P ! i) = d" "length (P ! j) = d" "k < d"
  shows "pair_force G M P i j ! k =
           G * (M ! i) * (M ! j) * real_of_int (P ! j ! k - P ! i ! k)
             / (linalg_norm (vsub (P ! i) (P ! j)) + eps)"
  using assms by (simp add: pair_force_def Let_def vsub_def)

lemma map2_as_index_map:
  assumes "length xs = d" "length ys = d"
  shows "map2 f xs ys = map (\<lambda>k. f (xs ! k) (ys ! k)) [0..<d]"
  using assms by (intro nth_equalityI) simp_all

lemma force_loop_closed:
  assumes "length tf = d" and "\<forall>j \<in> set js. length (pair_force G M P i j) = d"
  shows "force_loop G M P i js (tf, g) =
           (map (\<lambda>k. tf ! k +
                  weighted_forces (rand_value g) (rand_used g) (\<lambda>j. pair_force G M P i j ! k) i js)
              [0..<d],
            g\<lparr>rand_used := rand_used g + length (filter (\<lambda>j. j \<noteq> i) js)\<rparr>)"
  using assms
proof (induction js arbitrary: tf g)
  case Nil
  have "map (\<lambda>k. tf ! k) [0..<d] = tf"
    using map_nth [of tf] Nil(1) by simp
  then show ?case by simp
next
  case (Cons j js)
  show ?case
  proof (cases "i = j")
    case True
    then show ?thesis using Cons.IH [OF Cons.prems(1)] Cons.prems(2) by simp
  next
    case False
    let ?r = "rand_value g (rand_used g)"
    let ?g = "g\<lparr>rand_used := rand_used g + 1\<rparr>"
    let ?tf = "map2 (\<lambda>tf f. tf + ?r * f) tf (pair_force G M P i j)"
    have lf: "length (pair_force G M P i j) = d" using Cons.prems(2) by simp
    have tf': "?tf = map (\<lambda>k. tf ! k + ?r * pair_force G M P i j ! k) [0..<d]"
      by (rule map2_as_index_map [OF Cons.prems(1) lf])
    then have ltf: "length ?tf = d" by simp
    have step: "force_loop G M P i (j # js) (tf, g) = force_loop G M P i js (?tf, ?g)"
      using False by (simp add: np_random_rand_def Let_def)
    have rest: "\<forall>j \<in> set js. length (pair_force G M P i j) = d" using Cons.prems(2) by simp
    show ?thesis
      unfolding step Cons.IH [OF ltf rest]
      using False by (simp add: tf')
  qed
qed


lemma weighted_forces_append:
  "weighted_forces u c F i (xs @ ys) =
     weighted_forces u c F i xs
     + weighted_forces u (c + length (filter (\<lambda>j. j \<noteq> i) xs)) F i ys"
  by (induction xs arbitrary: c) auto

lemma length_filter_upt_neq:
  "length (filter (\<lambda>j. j \<noteq> i) [a..<b]) = card ({a..<b} - {i})"
proof -
  have "distinct (filter (\<lambda>j. j \<noteq> i) [a..<b])" by simp
  then have "length (filter (\<lambda>j. j \<noteq> i) [a..<b]) = card (set (filter (\<lambda>j. j \<noteq> i) [a..<b]))"
    by (simp only: distinct_card)
  also have "set (filter (\<lambda>j. j \<noteq> i) [a..<b]) = {a..<b} - {i}" by auto
  finally show ?thesis .
qed

lemma weighted_forces_upt:
  "weighted_forces u c F i [a..<b] =
     (\<Sum>j \<in> {a..<b} - {i}. u (c + card ({a..<j} - {i})) * F j)"
proof (induction b)
  case 0
  then show ?case by simp
next
  case (Suc b)
  show ?case
  proof (cases "a \<le> b")
    case False
    then show ?thesis by simp
  next
    case True
    then have upt: "[a..<Suc b] = [a..<b] @ [b]" by simp
    have split: "{a..<Suc b} - {i} = (if b = i then {a..<b} - {i} else insert b ({a..<b} - {i}))"
      using True by auto
    show ?thesis
      unfolding upt weighted_forces_append Suc.IH length_filter_upt_neq
      by (simp add: split)
  qed
qed

lemma card_below_without:
  "card ({0..<j} - {i}) = (if i < j then j - 1 else j)"
  by simp


lemma accel_loop_closed:
  assumes shape: "length P = n" "\<forall>row \<in> set P. length row = d" and b: "b \<le> n"
  shows "accel_loop G M P n d [a..<b] g =
           (map (\<lambda>i. map (\<lambda>k.
                   weighted_forces (rand_value g) (rand_used g + (i - a) * (n - 1))
                     (\<lambda>j. pair_force G M P i j ! k) i [0..<n] / (M ! i + eps))
                 [0..<d])
              [a..<b],
            g\<lparr>rand_used := rand_used g + (b - a) * (n - 1)\<rparr>)"
proof (induction "b - a" arbitrary: a g)
  case 0
  then show ?case by simp
next
  case (Suc m)
  then have ab: "a < b" and m: "m = b - Suc a" by simp_all
  then have an: "a < n" using b by simp
  have upt: "[a..<b] = a # [Suc a..<b]" using ab by (simp add: upt_rec)
  have rows: "length (P ! j) = d" if "j < n" for j
    using shape that by simp
  have lens: "\<forall>j \<in> set [0..<n]. length (pair_force G M P a j) = d"
    using rows an by (simp add: length_pair_force)
  let ?g1 = "g\<lparr>rand_used := rand_used g + (n - 1)\<rparr>"
  have cnt: "length (filter (\<lambda>j. j \<noteq> a) [0..<n]) = n - 1"
    using an by (simp add: length_filter_upt_neq)
  have inner: "force_loop G M P a [0..<n] (replicate d 0, g) =
      (map (\<lambda>k. weighted_forces (rand_value g) (rand_used g)
                  (\<lambda>j. pair_force G M P a j ! k) a [0..<n]) [0..<d], ?g1)"
    unfolding force_loop_closed [of "replicate d 0" d "[0..<n]" G M P a g, OF _ lens, simplified] cnt
    by simp
  have IH: "accel_loop G M P n d [Suc a..<b] ?g1 =
      (map (\<lambda>i. map (\<lambda>k.
                   weighted_forces (rand_value ?g1) (rand_used ?g1 + (i - Suc a) * (n - 1))
                     (\<lambda>j. pair_force G M P i j ! k) i [0..<n] / (M ! i + eps))
                 [0..<d])
              [Suc a..<b],
       ?g1\<lparr>rand_used := rand_used ?g1 + (b - Suc a) * (n - 1)\<rparr>)"
    by (rule Suc.hyps(1) [OF m])
  have shift: "rand_used g + (n - 1) + (i - Suc a) * (n - 1) = rand_used g + (i - a) * (n - 1)"
    if "i \<in> set [Suc a..<b]" for i
  proof -
    from that have "i - a = Suc (i - Suc a)" by auto
    then show ?thesis by simp
  qed
  have total: "rand_used g + (n - 1) + (b - Suc a) * (n - 1) = rand_used g + (b - a) * (n - 1)"
  proof -
    from ab have "b - a = Suc (b - Suc a)" by auto
    then show ?thesis by simp
  qed
  have tail: "map (\<lambda>i. map (\<lambda>k.
                   weighted_forces (rand_value g) (rand_used g + (n - 1) + (i - Suc a) * (n - 1))
                     (\<lambda>j. pair_force G M P i j ! k) i [0..<n] / (M ! i + eps))
                 [0..<d]) [Suc a..<b] =
      map (\<lambda>i. map (\<lambda>k.
                   weighted_forces (rand_value g) (rand_used g + (i - a) * (n - 1))
                     (\<lambda>j. pair_force G M P i j ! k) i [0..<n] / (M ! i + eps))
                 [0..<d]) [Suc a..<b]"
    by (rule map_cong [OF refl]) (simp only: shift)
  show ?case
    unfolding upt
    by (simp add: inner IH tail total Let_def del: One_nat_def)
qed


lemma pair_offset_less:
  fixes i j n :: nat
  assumes "i < n" "j < n" "j \<noteq> i"
  shows "(if j < i then j else j - 1) < n - 1"
proof (cases "j < i")
  case True
  then show ?thesis using assms(1) by simp
next
  case False
  then have "i < j" using assms(3) by simp
  then show ?thesis using False assms(2) by simp
qed

lemma pair_index_inj:
  assumes "i < n" "j < n" "j \<noteq> i" "i' < n" "j' < n" "j' \<noteq> i'"
    and eq: "pair_index n i' j' = pair_index n i j"
  shows "i' = i \<and> j' = j"
proof -
  let ?o = "if j < i then j else j - 1" and ?o' = "if j' < i' then j' else j' - 1"
  have o: "?o < n - 1" using assms(1-3) by (rule pair_offset_less)
  have o': "?o' < n - 1" using assms(4-6) by (rule pair_offset_less)
  have "i' * (n - 1) + ?o' = i * (n - 1) + ?o"
    using eq by (simp only: pair_index_def)
  from row_major_index_inj [OF o' o this]
  have i: "i' = i" and oo: "?o' = ?o" by blast+
  have "j' = j"
  proof (cases "j < i")
    case True
    then show ?thesis using oo i assms(3,6) by (cases "j' < i'") (simp; linarith)+
  next
    case False
    then show ?thesis using oo i assms(3,6) by (cases "j' < i'") (simp; linarith)+
  qed
  with i show ?thesis by simp
qed

lemma pair_index_less:
  assumes "i < n" "j < n" "j \<noteq> i"
  shows "pair_index n i j < n * (n - 1)"
proof -
  have "pair_index n i j < i * (n - 1) + (n - 1)"
    using pair_offset_less [OF assms] by (simp only: pair_index_def add_less_cancel_left)
  also have "\<dots> = Suc i * (n - 1)" by simp
  also have "\<dots> \<le> n * (n - 1)" using assms(1) by (intro mult_le_mono1) simp
  finally show ?thesis .
qed

lemma linalg_norm_euclidean:
  assumes "length u = d" "length v = d"
  shows "linalg_norm (vsub u v) = sqrt (\<Sum>c<d. (real_of_int (u ! c) - real_of_int (v ! c))\<^sup>2)"
proof -
  have len: "length (vsub u v) = d" using assms by (simp add: length_vsub)
  have "sum_list (map (\<lambda>x. (real_of_int x)\<^sup>2) (vsub u v)) =
        (\<Sum>c = 0..<d. (map (\<lambda>x. (real_of_int x)\<^sup>2) (vsub u v)) ! c)"
    using len by (simp add: sum_list_sum_nth)
  also have "\<dots> = (\<Sum>c = 0..<d. (real_of_int (u ! c) - real_of_int (v ! c))\<^sup>2)"
    using assms len by (intro sum.cong refl) (simp add: vsub_def)
  finally show ?thesis
    by (simp add: linalg_norm_def atLeast0LessThan)
qed

subsection \<open>The mass vector when the fitness values differ\<close>

lemma sum_list_divide_const:
  fixes c :: real
  shows "sum_list (map (\<lambda>x. x / c) xs) = sum_list xs / c"
  by (induction xs) (simp_all add: add_divide_distrib)

lemma mass_distribution_nondegenerate:
  assumes ne: "fitness \<noteq> []" and sp: "eps < Max (set fitness) - Min (set fitness)"
  shows "\<forall>M_i \<in> set (normalized_mass (raw_mass fitness (Min (set fitness)) (Max (set fitness)))).
           0 \<le> M_i \<and> M_i \<le> 1"
    and "\<bar>sum_list (normalized_mass (raw_mass fitness (Min (set fitness)) (Max (set fitness)))) - 1\<bar>
           < eps"
proof -
  let ?m = "raw_mass fitness (Min (set fitness)) (Max (set fitness))"
  let ?S = "sum_list ?m"
  have S: "1 < ?S" by (rule raw_mass_sum_gt_1 [OF ne sp])
  then have den: "1 < ?S + eps" using eps_pos by simp
  have sum: "sum_list (normalized_mass ?m) = ?S / (?S + eps)"
    by (simp add: normalized_mass_def sum_list_divide_const)
  have "1 - ?S / (?S + eps) = eps / (?S + eps)"
    using den by (simp add: field_simps)
  moreover have "eps / (?S + eps) < eps"
  proof -
    have "eps * 1 < eps * (?S + eps)"
      using den eps_pos by (intro mult_strict_left_mono)
    then show ?thesis using den by (simp add: pos_divide_less_eq)
  qed
  moreover have "0 < eps / (?S + eps)"
    using den eps_pos by simp
  ultimately show "\<bar>sum_list (normalized_mass ?m) - 1\<bar> < eps"
    unfolding sum by simp
  show "\<forall>M_i \<in> set (normalized_mass ?m). 0 \<le> M_i \<and> M_i \<le> 1"
  proof
    fix M_i assume M: "M_i \<in> set (normalized_mass ?m)"
    then obtain x where x: "x \<in> set ?m" and Mi: "M_i = x / (?S + eps)"
      by (auto simp: normalized_mass_def)
    have x0: "0 \<le> x" using x raw_mass_nonneg [OF sp] by blast
    have "x \<le> ?S"
      using x raw_mass_nonneg [OF sp] by (intro member_le_sum_list) auto
    then have "x \<le> ?S + eps" using eps_pos by simp
    then have "M_i \<le> 1" unfolding Mi using den by (simp add: field_simps)
    moreover have "0 \<le> M_i" unfolding Mi using x0 den by simp
    ultimately show "0 \<le> M_i \<and> M_i \<le> 1" by simp
  qed
qed

section \<open>Claims\<close>

subsection \<open>C1: the velocity update\<close>

text \<open>
  Claim C1 says that one random scalar per agent multiplies every coordinate of that
  agent's previous velocity. The code draws a whole \<open>num_agents \<times> dim\<close> matrix and
  multiplies elementwise, and the claim fails: for one agent with previous velocity
  \<open>[1, 1]\<close>, acceleration \<open>[0, 0]\<close> and the draws 0 and 1/2, the new velocity is
  \<open>[0, 1/2]\<close>, which is \<open>r * [1, 1] + [0, 0]\<close> for no scalar \<open>r\<close>.
\<close>

theorem velocity_update_per_agent_counterexample:
  "\<not> (\<exists>r. fst (update_velocity 1 2 [[1, 1]] [[0, 0]]
                 (example_rng (\<lambda>k. if k = 0 then 0 else 1 / 2))) ! 0 =
            map (\<lambda>k. r * [1, 1] ! k + [0, 0] ! k) [0..<2])"
  by (simp add: update_velocity_def np_random_rand_nd_def example_rng_def upt_rec rand_value_def
      unit_draw_inverse)

text \<open>
  Claim C1, amended. For every agent \<open>i\<close> and every coordinate \<open>k\<close> the new velocity
  entry is \<open>r\<^bsub>ik\<^esub> * V\<^bsub>ik\<^esub> + a\<^bsub>ik\<^esub>\<close>, where \<open>r\<^bsub>ik\<^esub>\<close> is a fresh draw in \<open>[0, 1)\<close>
  for that coordinate: the draw at row-major position \<open>i * dim + k\<close> after the draws
  already consumed, different from the draw of every other entry, and the update
  consumes \<open>num_agents * dim\<close> draws.
\<close>

theorem velocity_update_per_coordinate:
  assumes "i < n" and "k < d"
  shows "fst (update_velocity n d vel a g) ! i ! k =
           rand_value g (rand_used g + (i * d + k)) * vel ! i ! k + a ! i ! k \<and>
         0 \<le> rand_value g (rand_used g + (i * d + k)) \<and>
         rand_value g (rand_used g + (i * d + k)) < 1 \<and>
         (\<forall>i' k'. i' < n \<and> k' < d \<and> (i', k') \<noteq> (i, k) \<longrightarrow> i' * d + k' \<noteq> i * d + k) \<and>
         rand_used (snd (update_velocity n d vel a g)) = rand_used g + n * d"
proof (intro conjI allI impI)
  show "fst (update_velocity n d vel a g) ! i ! k =
           rand_value g (rand_used g + (i * d + k)) * vel ! i ! k + a ! i ! k"
    using assms by (simp add: update_velocity_def np_random_rand_nd_def add.assoc)
next
  fix i' k'
  assume "i' < n \<and> k' < d \<and> (i', k') \<noteq> (i, k)"
  then show "i' * d + k' \<noteq> i * d + k"
    using row_major_index_inj [of k' d k i' i] assms(2) by auto
next
  show "rand_used (snd (update_velocity n d vel a g)) = rand_used g + n * d"
    by (simp add: update_velocity_def np_random_rand_nd_def)
next
  show "0 \<le> rand_value g (rand_used g + (i * d + k))"
    and "rand_value g (rand_used g + (i * d + k)) < 1"
    using rand_value_range [of g "rand_used g + (i * d + k)"] by simp_all
qed

theorem velocity_update_per_coordinate_witness:
  "(0::nat) < 1 \<and> (1::nat) < 2 \<and>
   fst (update_velocity 1 2 [[1, 1]] [[0, 0]] (example_rng (\<lambda>k. if k = 0 then 0 else 1 / 2))) ! 0 ! 1 =
     rand_value (example_rng (\<lambda>k. if k = 0 then 0 else 1 / 2))
       (rand_used (example_rng (\<lambda>k. if k = 0 then 0 else 1 / 2)) + (0 * 2 + 1)) * [[1, 1]] ! 0 ! 1
     + [[0, 0]] ! 0 ! 1"
proof -
  have a: "(0::nat) < 1" and b: "(1::nat) < 2" by simp_all
  from velocity_update_per_coordinate [OF a b, of "[[1, 1]]" "[[0, 0]]"
      "example_rng (\<lambda>k. if k = 0 then 0 else 1 / 2)"] a b
  show ?thesis by blast
qed

subsection \<open>C2: the mass vector\<close>

text \<open>
  Claim C2 (the code departs from it). When all agents share one fitness value \<open>c\<close>,
  so that best and worst are both \<open>c\<close>, every raw mass is \<open>0 / \<epsilon> = 0\<close> and every
  normalised mass is \<open>0 / (0 + \<epsilon>) = 0\<close>: the mass vector is all zero and sums to 0, not
  to 1.
\<close>

theorem identical_fitness_zero_mass:
  "np_min (replicate (Suc n) c) = Inr c \<and>
   np_max (replicate (Suc n) c) = Inr c \<and>
   normalized_mass (raw_mass (replicate (Suc n) c) c c) = replicate (Suc n) 0 \<and>
   sum_list (normalized_mass (raw_mass (replicate (Suc n) c) c c)) = 0"
proof -
  have s: "set (replicate (Suc n) c) = {c}"
    by (rule set_replicate_Suc)
  have m: "raw_mass (replicate (Suc n) c) c c = replicate (Suc n) 0"
    by (simp add: raw_mass_def)
  have M: "normalized_mass (replicate (Suc n) 0) = replicate (Suc n) 0"
    by (simp add: normalized_mass_def)
  have "np_min (replicate (Suc n) c) = Inr c" "np_max (replicate (Suc n) c) = Inr c"
    unfolding np_min_def np_max_def s by simp_all
  moreover have "sum_list (replicate (Suc n) (0::real)) = 0"
    by (simp add: sum_list_replicate)
  ultimately show ?thesis
    unfolding m M by simp
qed

subsection \<open>C3: invalid configurations\<close>

text \<open>
  Claim C3 says that a configuration with \<open>num_agents \<le> 0\<close>, \<open>max_iter \<le> 0\<close> or
  \<open>dim \<le> 0\<close> is rejected before any iteration. The function has no check of its own, and
  the claim fails: with \<open>max_iter = 0\<close> (here with the default 30 agents and 30 features)
  it returns normally, with no best position and the score \<open>1 - inf\<close>.
\<close>

theorem invalid_configuration_counterexample:
  "GSA_feature_selection (\<lambda>sel. Some (9 / 10)) 30 0 30 (example_rng (\<lambda>k. 0)) =
     Inr (None, NegInf, [], [], replicate 30 0, [])"
  by (simp add: GSA_feature_selection_def initial_state_simps)

text \<open>
  Claim C3, amended. The entry point performs no validation of its own. A negative
  \<open>num_agents\<close> or \<open>dim\<close> makes the array allocation raise \<open>ValueError\<close> before any
  iteration. With \<open>max_iter \<le> 0\<close> (and non-negative \<open>num_agents\<close>, \<open>dim\<close>) no iteration
  runs and the function returns normally: no best position, score \<open>-inf\<close>, empty
  histories, an all-zero counter, no snapshots. With \<open>num_agents = 0\<close> and
  \<open>max_iter > 0\<close> the first iteration raises \<open>ValueError\<close> (minimum of an empty fitness
  vector). With \<open>dim = 0\<close>, \<open>num_agents > 0\<close> and \<open>max_iter > 0\<close> all iterations run and the
  function returns the empty mask with score 0.
\<close>

theorem configuration_handling:
  "(num_agents < 0 \<or> dim' < 0 \<longrightarrow>
      GSA_feature_selection knn num_agents max_iter dim' g = Inl ValueError) \<and>
   (0 \<le> num_agents \<and> 0 \<le> dim' \<and> max_iter \<le> 0 \<longrightarrow>
      GSA_feature_selection knn num_agents max_iter dim' g =
        Inr (None, NegInf, [], [], replicate (nat dim') 0, [])) \<and>
   (num_agents = 0 \<and> 0 \<le> dim' \<and> 0 < max_iter \<longrightarrow>
      GSA_feature_selection knn num_agents max_iter dim' g = Inl ValueError) \<and>
   (0 < num_agents \<and> dim' = 0 \<and> 0 < max_iter \<longrightarrow>
      GSA_feature_selection knn num_agents max_iter dim' g =
        Inr (Some [], Fin 0, replicate (nat max_iter) (Fin 1), replicate (nat max_iter) 0, [],
             replicate (nat max_iter) (replicate (nat num_agents) [])))"
proof (intro conjI impI)
  assume "num_agents < 0 \<or> dim' < 0"
  then show "GSA_feature_selection knn num_agents max_iter dim' g = Inl ValueError"
    by (simp add: GSA_feature_selection_def)
next
  assume "0 \<le> num_agents \<and> 0 \<le> dim' \<and> max_iter \<le> 0"
  then show "GSA_feature_selection knn num_agents max_iter dim' g =
        Inr (None, NegInf, [], [], replicate (nat dim') 0, [])"
    by (simp add: GSA_feature_selection_def initial_state_simps)
next
  assume h: "num_agents = 0 \<and> 0 \<le> dim' \<and> 0 < max_iter"
  then obtain ts where ts: "[0..<nat max_iter] = 0 # ts"
    by (simp add: upt_rec)
  have "X (initial_state 0 (nat dim') g) = []"
    by (simp add: initial_state_simps np_random_randint_0_2_def)
  then have "gsa_iteration knn 0 max_iter (nat dim') 0 (initial_state 0 (nat dim') g) = Inl ValueError"
    by (simp add: gsa_iteration_def np_min_def)
  then show "GSA_feature_selection knn num_agents max_iter dim' g = Inl ValueError"
    using h by (simp add: GSA_feature_selection_def ts)
next
  assume h: "0 < num_agents \<and> dim' = 0 \<and> 0 < max_iter"
  then have n: "0 < nat num_agents" by simp
  from gsa_loop_no_columns [OF n initial_state_no_columns, of knn max_iter "[0..<nat max_iter]" g]
  obtain s' where loop: "gsa_loop knn (nat num_agents) max_iter 0 [0..<nat max_iter]
        (initial_state (nat num_agents) 0 g) = Inr s'"
    and inv: "dim0_inv (nat num_agents) (nat max_iter) s'"
    by auto
  have k: "nat max_iter \<noteq> 0" using h by simp
  show "GSA_feature_selection knn num_agents max_iter dim' g =
        Inr (Some [], Fin 0, replicate (nat max_iter) (Fin 1), replicate (nat max_iter) 0, [],
             replicate (nat max_iter) (replicate (nat num_agents) []))"
    using h loop inv k by (simp add: GSA_feature_selection_def dim0_inv_def)
qed

theorem configuration_handling_witness:
  "GSA_feature_selection example_knn (- 1) 5 3 (example_rng example_draws) = Inl ValueError \<and>
   GSA_feature_selection example_knn 3 0 2 (example_rng example_draws) =
     Inr (None, NegInf, [], [], replicate (nat 2) 0, []) \<and>
   GSA_feature_selection example_knn 0 4 2 (example_rng example_draws) = Inl ValueError \<and>
   GSA_feature_selection example_knn 2 3 0 (example_rng example_draws) =
     Inr (Some [], Fin 0, replicate (nat 3) (Fin 1), replicate (nat 3) 0, [],
          replicate (nat 3) (replicate (nat 2) []))"
proof -
  have a: "(- 1 :: int) < 0 \<or> (3 :: int) < 0" by simp
  have b: "(0 :: int) \<le> 3 \<and> (0 :: int) \<le> 2 \<and> (0 :: int) \<le> 0" by simp
  have c: "(0 :: int) = 0 \<and> (0 :: int) \<le> 2 \<and> (0 :: int) < 4" by simp
  have d: "(0 :: int) < 2 \<and> (0 :: int) = 0 \<and> (0 :: int) < 3" by simp
  from configuration_handling [of "- 1" 3 example_knn 5 "example_rng example_draws"] a
  have 1: "GSA_feature_selection example_knn (- 1) 5 3 (example_rng example_draws) =
      Inl ValueError"
    by blast
  from configuration_handling [of 3 2 example_knn 0 "example_rng example_draws"] b
  have 2: "GSA_feature_selection example_knn 3 0 2 (example_rng example_draws) =
     Inr (None, NegInf, [], [], replicate (nat 2) 0, [])"
    by blast
  from configuration_handling [of 0 2 example_knn 4 "example_rng example_draws"] c
  have 3: "GSA_feature_selection example_knn 0 4 2 (example_rng example_draws) =
      Inl ValueError"
    by blast
  from configuration_handling [of 2 0 example_knn 3 "example_rng example_draws"] d
  have 4: "GSA_feature_selection example_knn 2 3 0 (example_rng example_draws) =
     Inr (Some [], Fin 0, replicate (nat 3) (Fin 1), replicate (nat 3) 0, [],
          replicate (nat 3) (replicate (nat 2) []))"
    by blast
  from 1 2 3 4 show ?thesis by blast
qed

subsection \<open>C4: the evaluator's contract\<close>

text \<open>
  Claim C4. For every all-zero mask the evaluator returns exactly the sentinel 1, whatever
  the external classifier \<open>knn\<close> is, even one that fails on every call (so the classifier
  is not consulted). For every binary mask with at least one bit set, on which the
  classifier returns \<open>score\<close>, the evaluator returns
  \<open>1 - (score - 0.01 * selectedCount / d)\<close>, where \<open>selectedCount\<close> is the number of
  selected indices and \<open>d\<close> the length of the mask.
\<close>

theorem evaluate_solution_contract:
  "(list_all (\<lambda>x. x = 0) bv \<longrightarrow> evaluate_solution knn bv = Inr 1) \<and>
   (set bv \<subseteq> {0, 1} \<and> 1 \<in> set bv \<and> knn (where_eq_1 bv) = Some score \<longrightarrow>
      evaluate_solution knn bv =
        Inr (1 - (score - (1 / 100) * (real (length (where_eq_1 bv)) / real (length bv)))))"
proof (intro conjI impI)
  assume "list_all (\<lambda>x. x = 0) bv"
  then show "evaluate_solution knn bv = Inr 1"
    by (simp add: evaluate_solution_def count_nonzero_zero_iff)
next
  assume h: "set bv \<subseteq> {0, 1} \<and> 1 \<in> set bv \<and> knn (where_eq_1 bv) = Some score"
  then have "\<not> list_all (\<lambda>x. x = 0) bv"
    by (auto simp: list_all_iff intro!: bexI[of _ 1])
  then have nz: "count_nonzero bv \<noteq> 0"
    by (simp add: count_nonzero_zero_iff)
  show "evaluate_solution knn bv =
        Inr (1 - (score - (1 / 100) * (real (length (where_eq_1 bv)) / real (length bv))))"
    using h nz by (simp add: evaluate_solution_def binary_count_nonzero)
qed

theorem evaluate_solution_contract_witness:
  "evaluate_solution (\<lambda>sel. None) [0, 0, 0] = Inr 1 \<and>
   evaluate_solution (\<lambda>sel. Some (9 / 10)) [1, 0, 1, 0] =
     Inr (1 - (9 / 10 - (1 / 100) * (2 / 4)))"
proof -
  have z: "list_all (\<lambda>x. x = 0) [0, 0, 0 :: int]" by simp
  have b: "set [1, 0, 1, 0 :: int] \<subseteq> {0, 1} \<and> 1 \<in> set [1, 0, 1, 0 :: int] \<and>
     (\<lambda>sel. Some (9 / 10) :: real option) (where_eq_1 [1, 0, 1, 0]) = Some (9 / 10)"
    by simp
  have l: "length (where_eq_1 [1, 0, 1, 0]) = 2"
    by (simp add: where_eq_1_def upt_rec)
  from evaluate_solution_contract [of "[0, 0, 0]" "\<lambda>sel. None"] z
  have 1: "evaluate_solution (\<lambda>sel. None) [0, 0, 0] = Inr 1" by blast
  from evaluate_solution_contract [of "[1, 0, 1, 0]" "\<lambda>sel. Some (9 / 10)" "9 / 10"] b
  have 2: "evaluate_solution (\<lambda>sel. Some (9 / 10)) [1, 0, 1, 0] =
     Inr (1 - (9 / 10 - (1 / 100) *
       (real (length (where_eq_1 [1, 0, 1, 0])) / real (length [1, 0, 1, 0 :: int]))))"
    by blast
  from 1 2 l show ?thesis by simp
qed

subsection \<open>C5: positions stay binary\<close>

text \<open>
  Claim C5. After the stochastic sigmoid binarisation of every iteration the position
  matrix holds only the values 0 and 1. Every iteration that completes, from any state,
  leaves a position matrix of \<open>num_agents\<close> rows and \<open>dim\<close> columns whose entries are 0 or
  1; and a run that returns has recorded exactly \<open>max_iter\<close> position matrices, one per
  iteration, each of that shape and with entries 0 or 1 only.
\<close>

theorem positions_stay_binary:
  "(gsa_iteration knn n T d t st = Inr st' \<longrightarrow>
      length (X st') = n \<and>
      (\<forall>row \<in> set (X st'). length row = d \<and> (\<forall>x \<in> set row. x = 0 \<or> x = 1))) \<and>
   (GSA_feature_selection knn num_agents max_iter dim' g = Inr (bp, score, hf, hnf, fsc, ap) \<longrightarrow>
      length ap = nat max_iter \<and>
      (\<forall>P \<in> set ap. length P = nat num_agents \<and>
         (\<forall>row \<in> set P. length row = nat dim' \<and> (\<forall>x \<in> set row. x = 0 \<or> x = 1))))"
proof (intro conjI impI)
  assume "gsa_iteration knn n T d t st = Inr st'"
  then have "binary_matrix n d (X st')"
    by (rule gsa_iteration_binary(1))
  then show "length (X st') = n"
    and "\<forall>row \<in> set (X st'). length row = d \<and> (\<forall>x \<in> set row. x = 0 \<or> x = 1)"
    by (simp_all add: binary_matrix_def list_all_iff)
next
  assume run: "GSA_feature_selection knn num_agents max_iter dim' g =
    Inr (bp, score, hf, hnf, fsc, ap)"
  then obtain st where
    loop: "gsa_loop knn (nat num_agents) max_iter (nat dim') [0..<nat max_iter]
       (initial_state (nat num_agents) (nat dim') g) = Inr st"
    and ap: "ap = all_positions st"
    by (rule GSA_feature_selection_Inr)
  have bin: "list_all (binary_matrix (nat num_agents) (nat dim')) (all_positions st)"
    using gsa_loop_all_positions [OF loop] by (simp add: initial_state_simps)
  show "length ap = nat max_iter"
    using gsa_loop_length_all_positions [OF loop] by (simp add: initial_state_simps ap)
  show "\<forall>P \<in> set ap. length P = nat num_agents \<and>
         (\<forall>row \<in> set P. length row = nat dim' \<and> (\<forall>x \<in> set row. x = 0 \<or> x = 1))"
    using bin unfolding ap binary_matrix_def by (simp add: list_all_iff)
qed

theorem positions_stay_binary_witness:
  "gsa_iteration example_knn 1 3 2 1 example_state_1 = Inr example_state_2 \<and>
   binary_matrix 1 2 (X example_state_2) \<and>
   GSA_feature_selection (\<lambda>sel. Some (4 / 5)) 2 1 2
     (example_rng (\<lambda>k. if k < 7 then 0 else 3 / 4)) =
     Inr (Some [1, 1], Fin (79 / 100), [Fin (21 / 100)], [2], [1, 0], [[[1, 0], [0, 0]]]) \<and>
   length [[[1, 0], [0, 0 :: int]]] = nat 1 \<and>
   list_all (binary_matrix (nat 2) (nat 2)) [[[1, 0], [0, 0]]]"
proof -
  note step = example_iteration_1
  note run = example_run_one_iteration
  from positions_stay_binary [of example_knn 1 3 2 1 example_state_1 example_state_2] step
  have 1: "binary_matrix 1 2 (X example_state_2)"
    by (simp add: binary_matrix_def list_all_iff)
  from positions_stay_binary [of "\<lambda>sel. Some (4 / 5)" _ _ _ _ _ _ 2 1 2
      "example_rng (\<lambda>k. if k < 7 then 0 else 3 / 4)" "Some [1, 1]" "Fin (79 / 100)"
      "[Fin (21 / 100)]" "[2]" "[1, 0]" "[[[1, 0], [0, 0]]]"] run
  have 2: "length [[[1, 0], [0, 0 :: int]]] = nat 1 \<and>
        list_all (binary_matrix (nat 2) (nat 2)) [[[1, 0], [0, 0]]]"
    by (simp add: binary_matrix_def)
  from step 1 run 2 show ?thesis by simp
qed

subsection \<open>C6: the best-so-far pair and its history\<close>

text \<open>
  Claim C6. In an iteration the stored best fitness and best position are overwritten
  exactly when the iteration's best fitness is strictly less than the stored one (they
  become that fitness and the position of the first agent attaining it); otherwise, in
  particular on equality, both stay as they are. Consequently the recorded best-fitness
  sequence of a run is non-increasing: every later entry is at most every earlier one.
\<close>

theorem best_tracker_strict_and_monotone:
  "(gsa_iteration knn n T d t st = Inr st' \<and> population_fitness knn (X st) = Inr fitness \<longrightarrow>
      (lt_pyfloat (Min (set fitness)) (best_fitness st) \<longrightarrow>
         best_fitness st' = Fin (Min (set fitness)) \<and>
         best_position st' = Some (X st ! np_argmin fitness)) \<and>
      (\<not> lt_pyfloat (Min (set fitness)) (best_fitness st) \<longrightarrow>
         best_fitness st' = best_fitness st \<and> best_position st' = best_position st)) \<and>
   (GSA_feature_selection knn num_agents max_iter dim' g = Inr (bp, score, hf, hnf, fsc, ap) \<longrightarrow>
      sorted_wrt (\<lambda>earlier later. le_pyfloat later earlier) hf)"
proof (intro conjI impI)
  assume h: "gsa_iteration knn n T d t st = Inr st' \<and> population_fitness knn (X st) = Inr fitness"
  assume lt: "lt_pyfloat (Min (set fitness)) (best_fitness st)"
  show "best_fitness st' = Fin (Min (set fitness))"
    using h lt by (auto elim!: gsa_iteration_Inr)
  show "best_position st' = Some (X st ! np_argmin fitness)"
    using h lt by (auto elim!: gsa_iteration_Inr)
next
  assume h: "gsa_iteration knn n T d t st = Inr st' \<and> population_fitness knn (X st) = Inr fitness"
  assume lt: "\<not> lt_pyfloat (Min (set fitness)) (best_fitness st)"
  show "best_fitness st' = best_fitness st"
    using h lt by (auto elim!: gsa_iteration_Inr)
  show "best_position st' = best_position st"
    using h lt by (auto elim!: gsa_iteration_Inr)
next
  assume "GSA_feature_selection knn num_agents max_iter dim' g = Inr (bp, score, hf, hnf, fsc, ap)"
  then obtain st where
    loop: "gsa_loop knn (nat num_agents) max_iter (nat dim') [0..<nat max_iter]
       (initial_state (nat num_agents) (nat dim') g) = Inr st"
    and hf: "hf = history_fitness st"
    by (rule GSA_feature_selection_Inr)
  have "history_inv (initial_state (nat num_agents) (nat dim') g)"
    by (simp add: history_inv_def initial_state_simps)
  then have "history_inv st"
    by (rule gsa_loop_history_inv [OF loop])
  then show "sorted_wrt (\<lambda>earlier later. le_pyfloat later earlier) hf"
    by (simp add: history_inv_def hf)
qed

theorem best_tracker_strict_and_monotone_witness:
  "gsa_iteration example_knn 1 3 2 1 example_state_1 = Inr example_state_2 \<and>
   population_fitness example_knn (X example_state_1) = Inr [11 / 200] \<and>
   lt_pyfloat (Min (set [11 / 200])) (best_fitness example_state_1) \<and>
   best_fitness example_state_2 = Fin (Min (set [11 / 200])) \<and>
   best_position example_state_2 = Some (X example_state_1 ! np_argmin [11 / 200]) \<and>
   gsa_iteration example_knn 1 3 2 2 example_state_2 = Inr example_state_3 \<and>
   population_fitness example_knn (X example_state_2) = Inr [11 / 200] \<and>
   \<not> lt_pyfloat (Min (set [11 / 200])) (best_fitness example_state_2) \<and>
   best_fitness example_state_3 = best_fitness example_state_2 \<and>
   best_position example_state_3 = best_position example_state_2 \<and>
   GSA_feature_selection example_knn 1 3 2 (example_rng example_draws) =
     Inr (Some [1, 0], Fin (189 / 200), [Fin (11 / 100), Fin (11 / 200), Fin (11 / 200)],
          [2, 1, 1], [2, 2], [[[1, 0]], [[0, 1]], [[1, 1]]]) \<and>
   sorted_wrt (\<lambda>earlier later. le_pyfloat later earlier)
     [Fin (11 / 100), Fin (11 / 200), Fin (11 / 200)]"
proof -
  have fit1: "population_fitness example_knn (X example_state_1) = Inr [11 / 200]"
    by (simp add: example_state_1_def example_knn_def evaluate_solution_def count_nonzero_def
          where_eq_1_def upt_rec)
  have lt1: "lt_pyfloat (Min (set [11 / 200])) (best_fitness example_state_1)"
    by (simp add: example_state_1_def)
  have fit2: "population_fitness example_knn (X example_state_2) = Inr [11 / 200]"
    by (simp add: example_state_2_def example_knn_def evaluate_solution_def count_nonzero_def
          where_eq_1_def upt_rec)
  have nlt2: "\<not> lt_pyfloat (Min (set [11 / 200])) (best_fitness example_state_2)"
    by (simp add: example_state_2_def)
  from best_tracker_strict_and_monotone
         [of example_knn 1 3 2 1 example_state_1 example_state_2 "[11 / 200]"]
       example_iteration_1 fit1 lt1
  have overwrite: "best_fitness example_state_2 = Fin (Min (set [11 / 200])) \<and>
        best_position example_state_2 = Some (X example_state_1 ! np_argmin [11 / 200])"
    by blast
  note inst = best_tracker_strict_and_monotone
    [of example_knn 1 3 2 2 example_state_2 example_state_3 "[11 / 200]"
        1 3 2 "example_rng example_draws" "Some [1, 0]" "Fin (189 / 200)"
        "[Fin (11 / 100), Fin (11 / 200), Fin (11 / 200)]" "[2, 1, 1]" "[2, 2]"
        "[[[1, 0]], [[0, 1]], [[1, 1]]]"]
  from inst example_iteration_2 fit2 nlt2
  have keep: "best_fitness example_state_3 = best_fitness example_state_2 \<and>
        best_position example_state_3 = best_position example_state_2"
    by blast
  from inst example_run_three_iterations
  have mono: "sorted_wrt (\<lambda>earlier later. le_pyfloat later earlier)
     [Fin (11 / 100), Fin (11 / 200), Fin (11 / 200)]"
    by blast
  from example_iteration_1 fit1 lt1 overwrite example_iteration_2 fit2 nlt2 keep
    example_run_three_iterations mono
  show ?thesis by blast
qed

subsection \<open>C7: pairwise forces and acceleration\<close>

text \<open>
  Claim C7. For a population \<open>P\<close> of \<open>n\<close> agents over \<open>d\<close> features, the acceleration of
  agent \<open>i\<close> in coordinate \<open>k\<close> is the sum, over all agents \<open>j \<noteq> i\<close>, of the pairwise
  force \<open>G * M\<^sub>i * M\<^sub>j * (P\<^sub>j\<^sub>k - P\<^sub>i\<^sub>k) / (R\<^sub>i\<^sub>j + \<epsilon>)\<close> scaled by a random draw in
  \<open>[0, 1)\<close>, divided by \<open>M\<^sub>i + \<epsilon>\<close>. \<open>R\<^sub>i\<^sub>j\<close> is the Euclidean distance of the two positions. The draw of the
  ordered pair \<open>(i, j)\<close> is the one at position \<open>pair_index n i j\<close> after the draws
  already consumed; different ordered pairs have different positions, all below
  \<open>n * (n - 1)\<close>, which is the number of draws the pass consumes: one fresh draw per
  ordered pair.
\<close>

theorem acceleration_closed_form:
  assumes "length P = n" and "\<forall>row \<in> set P. length row = d" and "i < n" and "k < d"
  shows "fst (acceleration G M P n d g) ! i ! k =
           (\<Sum>j \<in> {0..<n} - {i}.
               rand_value g (rand_used g + pair_index n i j) *
               (G * (M ! i) * (M ! j) * real_of_int (P ! j ! k - P ! i ! k)
                  / (linalg_norm (vsub (P ! i) (P ! j)) + eps)))
           / (M ! i + eps) \<and>
         (\<forall>j < n. linalg_norm (vsub (P ! i) (P ! j)) =
            sqrt (\<Sum>c<d. (real_of_int (P ! i ! c) - real_of_int (P ! j ! c))\<^sup>2)) \<and>
         (\<forall>j i' j'. j < n \<and> j \<noteq> i \<and> i' < n \<and> j' < n \<and> j' \<noteq> i' \<and>
            pair_index n i' j' = pair_index n i j \<longrightarrow> i' = i \<and> j' = j) \<and>
         (\<forall>j. j < n \<and> j \<noteq> i \<longrightarrow> pair_index n i j < n * (n - 1)) \<and>
         (\<forall>q. 0 \<le> rand_value g q \<and> rand_value g q < 1) \<and>
         rand_used (snd (acceleration G M P n d g)) = rand_used g + n * (n - 1)"
proof (intro conjI allI impI)
  have rows: "length (P ! j) = d" if "j < n" for j
    using assms(1,2) that by simp
  have closed: "accel_loop G M P n d [0..<n] g =
           (map (\<lambda>i. map (\<lambda>k.
                   weighted_forces (rand_value g) (rand_used g + (i - 0) * (n - 1))
                     (\<lambda>j. pair_force G M P i j ! k) i [0..<n] / (M ! i + eps))
                 [0..<d])
              [0..<n],
            g\<lparr>rand_used := rand_used g + (n - 0) * (n - 1)\<rparr>)"
    by (rule accel_loop_closed [OF assms(1,2) order_refl])
  have entry: "fst (acceleration G M P n d g) ! i ! k =
      weighted_forces (rand_value g) (rand_used g + i * (n - 1))
        (\<lambda>j. pair_force G M P i j ! k) i [0..<n] / (M ! i + eps)"
    using assms(3,4) by (simp add: acceleration_def closed del: One_nat_def)
  have terms: "rand_value g (rand_used g + i * (n - 1) + card ({0..<j} - {i})) *
                 pair_force G M P i j ! k =
               rand_value g (rand_used g + pair_index n i j) *
               (G * (M ! i) * (M ! j) * real_of_int (P ! j ! k - P ! i ! k)
                  / (linalg_norm (vsub (P ! i) (P ! j)) + eps))"
    if "j \<in> {0..<n} - {i}" for j
  proof -
    from that have j: "j < n" "j \<noteq> i" by auto
    have "card ({0..<j} - {i}) = (if j < i then j else j - 1)"
      using j(2) by (auto simp: card_below_without)
    then have "rand_used g + i * (n - 1) + card ({0..<j} - {i}) = rand_used g + pair_index n i j"
      by (simp only: pair_index_def add.assoc)
    then show ?thesis
      by (simp only: pair_force_nth [OF rows [OF assms(3)] rows [OF j(1)] assms(4)])
  qed
  show "fst (acceleration G M P n d g) ! i ! k =
           (\<Sum>j \<in> {0..<n} - {i}.
               rand_value g (rand_used g + pair_index n i j) *
               (G * (M ! i) * (M ! j) * real_of_int (P ! j ! k - P ! i ! k)
                  / (linalg_norm (vsub (P ! i) (P ! j)) + eps)))
           / (M ! i + eps)"
    unfolding entry weighted_forces_upt
    by (simp only: sum.cong [OF refl terms])
  show "rand_used (snd (acceleration G M P n d g)) = rand_used g + n * (n - 1)"
    by (simp add: acceleration_def closed del: One_nat_def)
  fix j
  assume "j < n"
  then show "linalg_norm (vsub (P ! i) (P ! j)) =
            sqrt (\<Sum>c<d. (real_of_int (P ! i ! c) - real_of_int (P ! j ! c))\<^sup>2)"
    using rows assms(3) by (intro linalg_norm_euclidean) simp_all
next
  fix j i' j'
  assume "j < n \<and> j \<noteq> i \<and> i' < n \<and> j' < n \<and> j' \<noteq> i' \<and>
            pair_index n i' j' = pair_index n i j"
  then show "i' = i" "j' = j"
    using pair_index_inj [of i n j i' j'] assms(3) by simp_all
next
  fix j
  assume "j < n \<and> j \<noteq> i"
  then show "pair_index n i j < n * (n - 1)"
    using pair_index_less [of i n j] assms(3) by simp
next
  fix q
  show "0 \<le> rand_value g q" and "rand_value g q < 1"
    using rand_value_range [of g q] by simp_all
qed


theorem acceleration_closed_form_witness:
  "length [[1, 0], [0, 0 :: int]] = 2 \<and>
   list_all (\<lambda>row. length row = 2) [[1, 0], [0, 0 :: int]] \<and>
   (0 :: nat) < 2 \<and>
   fst (acceleration 2 [1 / 2, 1 / 2] [[1, 0], [0, 0]] 2 2 (example_rng (\<lambda>k. 1 / 2))) ! 0 ! 0 =
     (1 / 2 * (2 * (1 / 2) * (1 / 2) * (- 1) / (1 + eps))) / (1 / 2 + eps) \<and>
   rand_used (snd (acceleration 2 [1 / 2, 1 / 2] [[1, 0], [0, 0]] 2 2 (example_rng (\<lambda>k. 1 / 2)))) =
     2"
proof -
  have len: "length [[1, 0], [0, 0 :: int]] = 2" by simp
  have rows: "\<forall>row \<in> set [[1, 0], [0, 0 :: int]]. length row = 2" by simp
  have i: "(0 :: nat) < 2" by simp
  have others: "{0..<2 :: nat} - {0} = {1}" by auto
  have idx: "pair_index 2 0 1 = 0" by (simp add: pair_index_def)
  have dist: "linalg_norm (vsub [1, 0] [0, 0]) = 1"
    by (simp add: linalg_norm_def vsub_def)
  from acceleration_closed_form [OF len rows i i, of 2 "[1 / 2, 1 / 2]" "example_rng (\<lambda>k. 1 / 2)"]
  have "fst (acceleration 2 [1 / 2, 1 / 2] [[1, 0], [0, 0]] 2 2 (example_rng (\<lambda>k. 1 / 2))) ! 0 ! 0 =
     (1 / 2 * (2 * (1 / 2) * (1 / 2) * (- 1) / (1 + eps))) / (1 / 2 + eps) \<and>
   rand_used (snd (acceleration 2 [1 / 2, 1 / 2] [[1, 0], [0, 0]] 2 2 (example_rng (\<lambda>k. 1 / 2)))) =
     2"
    by (simp add: others idx dist example_rng_def rand_value_def unit_draw_inverse pair_index_def)
  then show ?thesis by simp
qed

subsection \<open>C8: the gravitational constant\<close>

text \<open>
  Claim C8. The gravitational constant is a function of the iteration index alone,
  \<open>G(t) = 100 * exp (- 20 * t / max_iter)\<close>; for every iteration index \<open>t\<close> below
  \<open>max_iter\<close> it is strictly positive, and it does not increase from \<open>t\<close> to any later
  index \<open>t'\<close> below \<open>max_iter\<close>.
\<close>

theorem gravity_schedule:
  "gravity t max_iter = 100 * exp (- 20 * real t / real_of_int max_iter) \<and>
   (int t < max_iter \<longrightarrow>
      0 < gravity t max_iter \<and>
      (\<forall>t'. t \<le> t' \<and> int t' < max_iter \<longrightarrow> gravity t' max_iter \<le> gravity t max_iter))"
proof (intro conjI impI allI)
  show "gravity t max_iter = 100 * exp (- 20 * real t / real_of_int max_iter)"
    by (simp add: gravity_def)
next
  show "0 < gravity t max_iter"
    by (simp add: gravity_def)
next
  fix t'
  assume lt: "int t < max_iter" and h: "t \<le> t' \<and> int t' < max_iter"
  then have pos: "0 < real_of_int max_iter" by simp
  have "real t \<le> real t'" using h by simp
  then have "- 20 * real t' / real_of_int max_iter \<le> - 20 * real t / real_of_int max_iter"
    using pos by (simp add: divide_right_mono)
  then show "gravity t' max_iter \<le> gravity t max_iter"
    by (simp add: gravity_def)
qed

theorem gravity_schedule_witness:
  "int 1 < 3 \<and> 0 < gravity 1 3 \<and> (1::nat) \<le> 2 \<and> int 2 < 3 \<and> gravity 2 3 \<le> gravity 1 3 \<and>
   gravity 1 3 = 100 * exp (- 20 * real 1 / real_of_int 3)"
proof -
  have a: "int 1 < 3" and b: "(1::nat) \<le> 2 \<and> int 2 < 3" by simp_all
  from gravity_schedule [of 1 3] a b
  have "0 < gravity 1 3 \<and> gravity 2 3 \<le> gravity 1 3 \<and>
        gravity 1 3 = 100 * exp (- 20 * real 1 / real_of_int 3)"
    by blast
  with a b show ?thesis by blast
qed

subsection \<open>C10: the per-feature selection counter\<close>

text \<open>
  Claim C10. After a run with \<open>n\<close> agents and \<open>T\<close> iterations the returned counter has
  one entry per feature, and each entry equals the number of (iteration, agent) pairs
  whose post-update position has that feature's bit set, counted over the rows of all
  recorded population matrices (\<open>n * T\<close> rows in total), not over the global-best
  position; hence every entry lies between 0 and \<open>n * T\<close>.
\<close>

theorem counter_counts_whole_population:
  assumes "GSA_feature_selection knn num_agents max_iter dim' g = Inr (bp, score, hf, hnf, fsc, ap)"
  shows "length fsc = nat dim' \<and>
         length (concat ap) = nat num_agents * nat max_iter \<and>
         (\<forall>k < nat dim'.
            fsc ! k = real (length (filter (\<lambda>row. row ! k = 1) (concat ap))) \<and>
            0 \<le> fsc ! k \<and> fsc ! k \<le> real (nat num_agents * nat max_iter))"
proof -
  from assms obtain st where
    loop: "gsa_loop knn (nat num_agents) max_iter (nat dim') [0..<nat max_iter]
       (initial_state (nat num_agents) (nat dim') g) = Inr st"
    and fsc: "fsc = feature_selection_counter st" and ap: "ap = all_positions st"
    by (rule GSA_feature_selection_Inr)
  have "counter_inv (nat dim') (initial_state (nat num_agents) (nat dim') g)"
    by (simp add: counter_inv_def initial_state_simps bit_count_def map_replicate_const)
  then have inv: "counter_inv (nat dim') st"
    by (rule gsa_loop_counter_inv [OF loop])
  have bin: "list_all (binary_matrix (nat num_agents) (nat dim')) ap"
    using gsa_loop_all_positions [OF loop] by (simp add: initial_state_simps ap)
  have len: "length ap = nat max_iter"
    using gsa_loop_length_all_positions [OF loop] by (simp add: initial_state_simps ap)
  have total: "length (concat ap) = nat num_agents * nat max_iter"
    using length_concat_binary [OF bin] len by simp
  have eq: "fsc = map (\<lambda>k. real (bit_count k ap)) [0..<nat dim']"
    using inv by (simp add: counter_inv_def fsc ap)
  have "real (length (filter (\<lambda>row. row ! k = 1) (concat ap)))
          \<le> real (nat num_agents * nat max_iter)" for k
    using length_filter_le [of "\<lambda>row. row ! k = 1" "concat ap"] total
    by (simp only: of_nat_le_iff)
  then show ?thesis
    using total by (simp add: eq bit_count_def del: of_nat_mult)
qed

theorem counter_counts_whole_population_witness:
  "GSA_feature_selection (\<lambda>sel. Some (9 / 10)) 2 2 2
     (example_rng (\<lambda>k. if k < 8 then 0 else 3 / 4)) =
     Inr (Some [1, 1], Fin (89 / 100), [Fin (11 / 100), Fin (11 / 100)], [2, 2], [1, 1],
          [[[1, 1], [0, 0]], [[0, 0], [0, 0]]]) \<and>
   length [1, 1 :: real] = nat 2 \<and>
   length (concat [[[1, 1], [0, 0]], [[0, 0], [0, 0 :: int]]]) = nat 2 * nat 2 \<and>
   [1, 1 :: real] ! 1 =
     real (length (filter (\<lambda>row. row ! 1 = 1) (concat [[[1, 1], [0, 0]], [[0, 0], [0, 0 :: int]]]))) \<and>
   0 \<le> [1, 1 :: real] ! 1 \<and> [1, 1 :: real] ! 1 \<le> real (nat 2 * nat 2)"
proof -
  note run = example_run_two_agents
  have k: "(1::nat) < nat 2" by simp
  from counter_counts_whole_population [OF run] k
  have "length [1, 1 :: real] = nat 2 \<and>
   length (concat [[[1, 1], [0, 0]], [[0, 0], [0, 0 :: int]]]) = nat 2 * nat 2 \<and>
   [1, 1 :: real] ! 1 =
     real (length (filter (\<lambda>row. row ! 1 = 1) (concat [[[1, 1], [0, 0]], [[0, 0], [0, 0 :: int]]]))) \<and>
   0 \<le> [1, 1 :: real] ! 1 \<and> [1, 1 :: real] ! 1 \<le> real (nat 2 * nat 2)"
    by blast
  with run show ?thesis by blast
qed

end
